theory Spec2Isabelle
  imports Main "HOL-Library.Word"
begin

unbundle bit_operations_syntax

section \<open>Machine integers and constants of the parser driver\<close>

text \<open>
  The runtime is C: \<^verbatim>\<open>unsigned\<close> and \<^verbatim>\<open>uint32_t\<close> are 32-bit words whose arithmetic
  wraps, \<^verbatim>\<open>int\<close> is a 32-bit word read in two's complement, \<^verbatim>\<open>TSSymbol\<close> and
  \<^verbatim>\<open>TSStateId\<close> are 16-bit words and the slab bitmap is a \<^verbatim>\<open>uint64_t\<close>.
\<close>

type_synonym u16 = "16 word"
type_synonym u32 = "32 word"
type_synonym u64 = "64 word"

text \<open>\<^verbatim>\<open>static const unsigned MAX_VERSION_COUNT = 6;\<close>\<close>

definition MAX_VERSION_COUNT :: nat where
  "MAX_VERSION_COUNT = 6"

text \<open>
  The macros of \<^verbatim>\<open>runtime/error_costs.h\<close>, a header that is not among the sources, are
  parameters of the model: the functions that use them take this record.
\<close>

record error_costs =
  ERROR_STATE :: u16
  ERROR_COST_PER_SKIPPED_TREE :: u32

text \<open>\<^verbatim>\<open>static const unsigned MAX_COST_DIFFERENCE = 16 * ERROR_COST_PER_SKIPPED_TREE;\<close>\<close>

definition MAX_COST_DIFFERENCE :: "error_costs \<Rightarrow> u32" where
  "MAX_COST_DIFFERENCE h = 16 * ERROR_COST_PER_SKIPPED_TREE h"

text \<open>\<^verbatim>\<open>UINT_MAX\<close> of \<^verbatim>\<open>limits.h\<close>.\<close>

definition UINT_MAX :: u32 where
  "UINT_MAX = - 1"

section \<open>The subtree model (tree.h)\<close>

record Length =
  bytes :: u32
  chars :: u32
  extent_row :: u32
  extent_column :: u32

record TSLexMode =
  lex_state :: u16
  external_lex_state :: u16

text \<open>
  \<^verbatim>\<open>struct Tree\<close> of \<^verbatim>\<open>runtime/tree.h\<close>, with the fields the driver reads or writes in the
  functions embedded below. The field \<^verbatim>\<open>size\<close> is \<open>tree_size\<close> here, the nested struct
  \<^verbatim>\<open>first_leaf\<close> is the two fields \<open>first_leaf_symbol\<close> and \<open>first_leaf_lex_mode\<close>, and
  \<^verbatim>\<open>int dynamic_precedence\<close> is a 32-bit word read with \<open>sint\<close>. The \<^verbatim>\<open>children\<close> array and
  its \<^verbatim>\<open>child_count\<close> are the list of children.
\<close>

record TreeData =
  padding :: Length
  tree_size :: Length
  bytes_scanned :: u32
  symbol :: u16
  parse_state :: u16
  error_cost :: u32
  first_leaf_symbol :: u16
  first_leaf_lex_mode :: TSLexMode
  ref_count :: u32
  dynamic_precedence :: u32
  visible :: bool
  named :: bool
  extra :: bool
  fragile_left :: bool
  fragile_right :: bool
  has_changes :: bool
  has_external_tokens :: bool
  external_token_state :: "8 word list"

datatype Tree = Tree (data: TreeData) (children: "Tree list")

definition child_count :: "Tree \<Rightarrow> nat" where
  "child_count t = length (children t)"

text \<open>\<^verbatim>\<open>ts_tree_total_bytes\<close> (tree.h): \<^verbatim>\<open>self->padding.bytes + self->size.bytes\<close>.\<close>

definition ts_tree_total_bytes :: "Tree \<Rightarrow> u32" where
  "ts_tree_total_bytes self = bytes (padding (data self)) + bytes (tree_size (data self))"

text \<open>
  Modelled from the spec: \<^verbatim>\<open>ts_tree_compare\<close> is declared in \<^verbatim>\<open>tree.h\<close> and defined in
  \<^verbatim>\<open>tree.c\<close>, which is not among the sources. The specification: "compare symbols, then
  child_count, then each child recursively", with results \<open>-1\<close>, \<open>0\<close> and \<open>1\<close> as the
  \<^verbatim>\<open>switch\<close> of \<^verbatim>\<open>parser__select_tree\<close> reads them.
\<close>

fun ts_tree_compare :: "Tree \<Rightarrow> Tree \<Rightarrow> int"
  and compare_children :: "Tree list \<Rightarrow> Tree list \<Rightarrow> int" where
  "ts_tree_compare (Tree l ls) (Tree r rs) =
    (if symbol l < symbol r then - 1
     else if symbol r < symbol l then 1
     else if length ls < length rs then - 1
     else if length rs < length ls then 1
     else compare_children ls rs)"
| "compare_children (x # xs) (y # ys) =
    (let c = ts_tree_compare x y in
     if c = - 1 then - 1 else if c = 1 then 1 else compare_children xs ys)"
| "compare_children [] ys = 0"
| "compare_children xs [] = 0"

section \<open>The subtree pool (tree_pool.c)\<close>

text \<open>
  \<^verbatim>\<open>#define SLAB_SIZE 64\<close>, \<^verbatim>\<open>#define BITMAP_TYPE uint64_t\<close>,
  \<^verbatim>\<open>#define FULL_BITMAP UINT64_MAX\<close>.
\<close>

definition SLAB_SIZE :: nat where
  "SLAB_SIZE = 64"

definition FULL_BITMAP :: u64 where
  "FULL_BITMAP = - 1"

text \<open>
  \<^verbatim>\<open>BITMAP_TYPE mask = 1 << i;\<close> The literal \<^verbatim>\<open>1\<close> is an \<^verbatim>\<open>int\<close>, so the shift is a shift
  of a 32-bit value, and the \<^verbatim>\<open>int\<close> result is then converted to \<^verbatim>\<open>uint64_t\<close>, which
  extends its sign bit. Up to \<open>i = 30\<close> the C standard defines the shift. At \<open>i = 31\<close> the
  result is the sign bit alone, \<^verbatim>\<open>INT_MIN\<close>. From \<open>i = 32\<close> on the count is not below the
  width of \<^verbatim>\<open>int\<close> and the standard defines nothing; the shift instructions that the
  expression compiles to (x86-64, AArch64) take the count modulo 32, and so does the
  model. \<open>slot_clear_mask\<close> is \<^verbatim>\<open>~(1 << index)\<close> of \<^verbatim>\<open>tree_pool_slab__free\<close>, the same
  shift of an \<^verbatim>\<open>int\<close>, converted the same way by \<^verbatim>\<open>&=\<close>.
\<close>

definition slot_mask :: "nat \<Rightarrow> u64" where
  "slot_mask i = scast (push_bit (i mod 32) (1 :: u32))"

definition slot_clear_mask :: "nat \<Rightarrow> u64" where
  "slot_clear_mask i = scast (NOT (push_bit (i mod 32) (1 :: u32)))"

text \<open>
  A \<^verbatim>\<open>Tree *\<close> handed out by the pool points into the \<^verbatim>\<open>trees\<close> array of one slab: it is
  the pair of that array (each \<^verbatim>\<open>ts_calloc\<close> gives a new one, numbered here) and the index
  of the slot in it.
\<close>

type_synonym tree_ptr = "nat \<times> nat"

record TreePoolSlab =
  bitmap :: u64
  trees :: nat

record TreePool =
  slabs :: "TreePoolSlab list"
  first_available_slab_index :: nat

definition tree_pool_slab__is_full :: "TreePoolSlab \<Rightarrow> bool" where
  "tree_pool_slab__is_full self = (bitmap self = FULL_BITMAP)"

text \<open>The loop of \<^verbatim>\<open>tree_pool_slab__allocate\<close>, from slot \<open>i\<close> on.\<close>

function slab_allocate_from :: "nat \<Rightarrow> TreePoolSlab \<Rightarrow> tree_ptr option \<times> TreePoolSlab" where
  "slab_allocate_from i self =
    (if i < SLAB_SIZE then
       (let mask = slot_mask i in
        if bitmap self AND mask = 0
        then (Some (trees self, i), self\<lparr>bitmap := bitmap self OR mask\<rparr>)
        else slab_allocate_from (i + 1) self)
     else (None, self))"
  by pat_completeness auto
termination
  by (relation "measure (\<lambda>(i, self). SLAB_SIZE - i)") auto

declare slab_allocate_from.simps [simp del]

definition tree_pool_slab__allocate :: "TreePoolSlab \<Rightarrow> tree_ptr option \<times> TreePoolSlab" where
  "tree_pool_slab__allocate self = slab_allocate_from 0 self"

text \<open>
  \<^verbatim>\<open>tree_pool_slab__free\<close>: \<^verbatim>\<open>index = tree - self->trees\<close> is in \<open>0..63\<close> exactly for a
  pointer into this slab's array.
\<close>

definition tree_pool_slab__free :: "TreePoolSlab \<Rightarrow> tree_ptr \<Rightarrow> bool \<times> TreePoolSlab" where
  "tree_pool_slab__free self tree =
    (if fst tree \<noteq> trees self \<or> SLAB_SIZE \<le> snd tree then (False, self)
     else (True, self\<lparr>bitmap := bitmap self AND slot_clear_mask (snd tree)\<rparr>))"

definition ts_tree_pool__add_slab :: "TreePool \<Rightarrow> TreePool" where
  "ts_tree_pool__add_slab self =
    \<lparr>slabs = slabs self @ [\<lparr>bitmap = 0, trees = length (slabs self)\<rparr>],
     first_available_slab_index = length (slabs self)\<rparr>"

definition ts_tree_pool_init :: TreePool where
  "ts_tree_pool_init = ts_tree_pool__add_slab \<lparr>slabs = [], first_available_slab_index = 0\<rparr>"

text \<open>The search of \<^verbatim>\<open>ts_tree_pool_allocate\<close> for a later slab that is not full.\<close>

function first_slab_with_room :: "nat \<Rightarrow> TreePoolSlab list \<Rightarrow> nat option" where
  "first_slab_with_room i ss =
    (if i < length ss then
       (if \<not> tree_pool_slab__is_full (ss ! i) then Some i else first_slab_with_room (i + 1) ss)
     else None)"
  by pat_completeness auto
termination
  by (relation "measure (\<lambda>(i, ss). length ss - i)") auto

declare first_slab_with_room.simps [simp del]

text \<open>
  \<^verbatim>\<open>ts_tree_pool_allocate\<close>. The source indexes \<^verbatim>\<open>slabs.contents\<close> without a check; the
  pool keeps \<open>first_available_slab_index\<close> inside the array, and outside it the model
  returns no tree.
\<close>

definition ts_tree_pool_allocate :: "TreePool \<Rightarrow> tree_ptr option \<times> TreePool" where
  "ts_tree_pool_allocate self =
    (let k = first_available_slab_index self in
     if length (slabs self) \<le> k then (None, self)
     else
       (let (tree, slab) = tree_pool_slab__allocate (slabs self ! k);
            self1 = self\<lparr>slabs := (slabs self)[k := slab]\<rparr>
        in if tree_pool_slab__is_full slab then
             (case first_slab_with_room (k + 1) (slabs self1) of
                Some i \<Rightarrow> (tree, self1\<lparr>first_available_slab_index := i\<rparr>)
              | None \<Rightarrow> (tree, ts_tree_pool__add_slab self1))
           else (tree, self1)))"

text \<open>
  \<^verbatim>\<open>ts_tree_pool_free\<close> scans the slabs from the last to the first; \<open>pool_free_from n\<close>
  is the loop at \<open>i = n - 1\<close>. \<open>None\<close> is the failed assertion
  "Tree did not belong to any slab."
\<close>

fun pool_free_from :: "nat \<Rightarrow> TreePool \<Rightarrow> tree_ptr \<Rightarrow> TreePool option" where
  "pool_free_from 0 self tree = None"
| "pool_free_from (Suc i) self tree =
    (let (freed, slab) = tree_pool_slab__free (slabs self ! i) tree in
     if freed then
       Some (self\<lparr>slabs := (slabs self)[i := slab],
                  first_available_slab_index :=
                    (if i < first_available_slab_index self then i
                     else first_available_slab_index self)\<rparr>)
     else pool_free_from i self tree)"

definition ts_tree_pool_free :: "TreePool \<Rightarrow> tree_ptr \<Rightarrow> TreePool option" where
  "ts_tree_pool_free self tree = pool_free_from (length (slabs self)) self tree"

text \<open>The pool after \<open>n\<close> allocations in a row.\<close>

fun allocate_many :: "nat \<Rightarrow> TreePool \<Rightarrow> TreePool" where
  "allocate_many 0 self = self"
| "allocate_many (Suc n) self = allocate_many n (snd (ts_tree_pool_allocate self))"

section \<open>Comparing two stack versions and two trees (parser.c)\<close>

record ErrorStatus =
  cost :: u32
  push_count :: u32
  is_in_error :: bool

datatype ErrorComparison =
    ErrorComparisonTakeLeft
  | ErrorComparisonPreferLeft
  | ErrorComparisonNone
  | ErrorComparisonPreferRight
  | ErrorComparisonTakeRight

text \<open>
  \<^verbatim>\<open>parser__compare_versions\<close> (parser.c, lines 137-171). The four \<^verbatim>\<open>if\<close> statements are
  tried in the order of the source; all arithmetic is on \<^verbatim>\<open>unsigned\<close>.
\<close>

definition parser__compare_versions :: "error_costs \<Rightarrow> ErrorStatus \<Rightarrow> ErrorStatus \<Rightarrow> ErrorComparison" where
  "parser__compare_versions h a b =
    (if \<not> is_in_error a \<and> is_in_error b then
       (if cost a < cost b then ErrorComparisonTakeLeft else ErrorComparisonPreferLeft)
     else if is_in_error a \<and> \<not> is_in_error b then
       (if cost b < cost a then ErrorComparisonTakeRight else ErrorComparisonPreferRight)
     else if cost a < cost b then
       (if (cost b - cost a) * (1 + push_count a) > MAX_COST_DIFFERENCE h
        then ErrorComparisonTakeLeft else ErrorComparisonPreferLeft)
     else if cost b < cost a then
       (if (cost a - cost b) * (1 + push_count b) > MAX_COST_DIFFERENCE h
        then ErrorComparisonTakeRight else ErrorComparisonPreferRight)
     else ErrorComparisonNone)"

text \<open>
  The verdict as the specification words it, over the natural numbers that the costs and
  push counts stand for: \<open>(cost_loser - cost_winner) * (1 + push_count_winner)\<close> is an
  ordinary product there.
\<close>

definition compare_versions_spec :: "nat \<Rightarrow> ErrorStatus \<Rightarrow> ErrorStatus \<Rightarrow> ErrorComparison" where
  "compare_versions_spec max_cost_difference a b =
    (let ca = unat (cost a); cb = unat (cost b) in
     if is_in_error a \<noteq> is_in_error b then
       (if \<not> is_in_error a
        then (if ca < cb then ErrorComparisonTakeLeft else ErrorComparisonPreferLeft)
        else (if cb < ca then ErrorComparisonTakeRight else ErrorComparisonPreferRight))
     else if ca < cb then
       (if (cb - ca) * (1 + unat (push_count a)) > max_cost_difference
        then ErrorComparisonTakeLeft else ErrorComparisonPreferLeft)
     else if cb < ca then
       (if (ca - cb) * (1 + unat (push_count b)) > max_cost_difference
        then ErrorComparisonTakeRight else ErrorComparisonPreferRight)
     else ErrorComparisonNone)"

text \<open>
  \<^verbatim>\<open>parser__select_tree\<close> (parser.c, lines 543-591): \<open>True\<close> selects \<open>right\<close>, \<open>False\<close>
  keeps \<open>left\<close>. A \<^verbatim>\<open>Tree *\<close> that may be \<^verbatim>\<open>NULL\<close> is an option; the comparisons of
  \<^verbatim>\<open>error_cost\<close> are unsigned and those of \<^verbatim>\<open>dynamic_precedence\<close> signed.
\<close>

definition parser__select_tree :: "Tree option \<Rightarrow> Tree option \<Rightarrow> bool" where
  "parser__select_tree left right =
    (case left of None \<Rightarrow> True | Some l \<Rightarrow>
     (case right of None \<Rightarrow> False | Some r \<Rightarrow>
       if error_cost (data r) < error_cost (data l) then True
       else if error_cost (data l) < error_cost (data r) then False
       else if dynamic_precedence (data l) <s dynamic_precedence (data r) then True
       else if dynamic_precedence (data r) <s dynamic_precedence (data l) then False
       else if 0 < error_cost (data l) then True
       else (let comparison = ts_tree_compare l r in
             if comparison = - 1 then False
             else if comparison = 1 then True
             else False)))"

text \<open>
  The choice as the specification words it: the smaller error cost, else the larger
  dynamic precedence, else the structural comparison, with the existing tree kept on
  equality. \<open>True\<close> again selects the second tree.
\<close>

definition select_tree_spec :: "Tree \<Rightarrow> Tree \<Rightarrow> bool" where
  "select_tree_spec a b =
    (if unat (error_cost (data b)) < unat (error_cost (data a)) then True
     else if unat (error_cost (data a)) < unat (error_cost (data b)) then False
     else if sint (dynamic_precedence (data a)) < sint (dynamic_precedence (data b)) then True
     else if sint (dynamic_precedence (data b)) < sint (dynamic_precedence (data a)) then False
     else ts_tree_compare a b = 1)"

text \<open>A leaf with the given symbol, error cost and dynamic precedence, for the examples.\<close>

definition example_leaf :: "u16 \<Rightarrow> u32 \<Rightarrow> u32 \<Rightarrow> Tree" where
  "example_leaf s c p =
    Tree \<lparr>padding = \<lparr>bytes = 0, chars = 0, extent_row = 0, extent_column = 0\<rparr>,
          tree_size = \<lparr>bytes = 1, chars = 1, extent_row = 0, extent_column = 1\<rparr>,
          bytes_scanned = 2, symbol = s, parse_state = 1, error_cost = c,
          first_leaf_symbol = s,
          first_leaf_lex_mode = \<lparr>lex_state = 0, external_lex_state = 0\<rparr>,
          ref_count = 1, dynamic_precedence = p, visible = True, named = True,
          extra = False, fragile_left = False, fragile_right = False,
          has_changes = False, has_external_tokens = False,
          external_token_state = []\<rparr> []"

section \<open>The parse stack, as condense_stack sees it (stack.h)\<close>

text \<open>
  Modelled from the spec: \<^verbatim>\<open>stack.c\<close> is not among the sources; the driver has its header
  (\<^verbatim>\<open>ts_stack_version_count\<close>, \<^verbatim>\<open>ts_stack_top_state\<close>, \<^verbatim>\<open>ts_stack_error_cost\<close>,
  \<^verbatim>\<open>ts_stack_push_count\<close>, \<^verbatim>\<open>ts_stack_is_halted\<close>, \<^verbatim>\<open>ts_stack_can_merge\<close>,
  \<^verbatim>\<open>ts_stack_force_merge\<close>, \<^verbatim>\<open>ts_stack_swap_versions\<close>, \<^verbatim>\<open>ts_stack_remove_version\<close>).
  The specification: "A version is an index into an array of head pointers"; a head
  points to a node of the graph, which "holds a parse state"; "error_cost(v): sum of
  subtree error costs along v's spine plus a per-discontinuity penalty"; "merge(a, b): if
  the two versions share the same head node, free one id. can_merge tests the
  precondition. force_merge merges by adding b's incoming links to a regardless of head
  equality"; \<^verbatim>\<open>remove_version\<close>: "Remove the given version from the stack."
  The stack is the list of its heads; a head names its node (\<open>node_id\<close> is the node's
  identity) with the state, the position and the error cost of the spine that ends in it,
  and carries the last external token of its version (\<^verbatim>\<open>ts_stack_last_external_token\<close>; the
  driver only reads that tree's serialized state, so the head holds the tree itself). The
  links of the graph below the heads are not part of this model.
\<close>

record StackNode =
  node_id :: nat
  node_state :: u16
  node_position :: Length
  node_error_cost :: u32

record StackHead =
  node :: StackNode
  head_push_count :: u32
  head_last_external_token :: "Tree option"
  is_halted :: bool

type_synonym Stack = "StackHead list"

definition ts_stack_version_count :: "Stack \<Rightarrow> nat" where
  "ts_stack_version_count self = length self"

definition ts_stack_is_halted :: "Stack \<Rightarrow> nat \<Rightarrow> bool" where
  "ts_stack_is_halted self v = is_halted (self ! v)"

definition ts_stack_top_state :: "Stack \<Rightarrow> nat \<Rightarrow> u16" where
  "ts_stack_top_state self v = node_state (node (self ! v))"



definition ts_stack_set_last_external_token :: "Stack \<Rightarrow> nat \<Rightarrow> Tree option \<Rightarrow> Stack" where
  "ts_stack_set_last_external_token self v token =
    self[v := (self ! v)\<lparr>head_last_external_token := token\<rparr>]"

definition ts_stack_error_cost :: "Stack \<Rightarrow> nat \<Rightarrow> u32" where
  "ts_stack_error_cost self v = node_error_cost (node (self ! v))"

definition ts_stack_push_count :: "Stack \<Rightarrow> nat \<Rightarrow> u32" where
  "ts_stack_push_count self v = head_push_count (self ! v)"

definition ts_stack_remove_version :: "Stack \<Rightarrow> nat \<Rightarrow> Stack" where
  "ts_stack_remove_version self v = take v self @ drop (Suc v) self"

definition ts_stack_swap_versions :: "Stack \<Rightarrow> nat \<Rightarrow> nat \<Rightarrow> Stack" where
  "ts_stack_swap_versions self v1 v2 = self[v1 := self ! v2, v2 := self ! v1]"

definition ts_stack_can_merge :: "Stack \<Rightarrow> nat \<Rightarrow> nat \<Rightarrow> bool" where
  "ts_stack_can_merge self v1 v2 = (node (self ! v1) = node (self ! v2))"

text \<open>
  \<open>ts_stack_force_merge self v1 v2\<close> gives the links of the head of \<open>v2\<close> to the head of
  \<open>v1\<close>, which keeps its node, and frees the id \<open>v2\<close>.
\<close>

definition ts_stack_force_merge :: "Stack \<Rightarrow> nat \<Rightarrow> nat \<Rightarrow> Stack" where
  "ts_stack_force_merge self v1 v2 = ts_stack_remove_version self v2"

section \<open>Condensing the stack (parser.c)\<close>

text \<open>
  The \<^verbatim>\<open>ErrorStatus\<close> that \<^verbatim>\<open>parser__condense_stack\<close> builds for a version, for
  \<^verbatim>\<open>status_i\<close> and \<^verbatim>\<open>status_j\<close> alike.
\<close>

definition version_status :: "error_costs \<Rightarrow> Stack \<Rightarrow> nat \<Rightarrow> ErrorStatus" where
  "version_status h self v =
    \<lparr>cost = ts_stack_error_cost self v,
     push_count = ts_stack_push_count self v,
     is_in_error = (ts_stack_top_state self v = ERROR_STATE h)\<rparr>"

text \<open>The head's top state is \<^verbatim>\<open>ERROR_STATE\<close>, which is what \<^verbatim>\<open>is_in_error\<close> records.\<close>

definition head_in_error :: "error_costs \<Rightarrow> StackHead \<Rightarrow> bool" where
  "head_in_error h v = (node_state (node v) = ERROR_STATE h)"

text \<open>
  The inner loop \<^verbatim>\<open>for (StackVersion j = 0; j < i; j++)\<close> of \<^verbatim>\<open>parser__condense_stack\<close>
  (lines 218-267), from \<open>j\<close> on; it returns the stack and the value of \<open>i\<close> when the loop
  is left. \<^verbatim>\<open>status_i\<close> is computed once, before the loop, and not again. Where the source
  writes \<^verbatim>\<open>i--; j = i;\<close> the \<^verbatim>\<open>j++\<close> of the loop header then makes \<open>j = i + 1\<close> and the loop
  ends; where it writes \<^verbatim>\<open>i--; j--;\<close> the \<^verbatim>\<open>j++\<close> brings \<open>j\<close> back, so the loop goes on at
  the same \<open>j\<close> (the unsigned \<open>j\<close> wraps to \<^verbatim>\<open>UINT_MAX\<close> and back to 0 when \<open>j = 0\<close>); \<open>i\<close> is
  at least 1 whenever it is decremented here, since \<open>j < i\<close>. \<^verbatim>\<open>made_changes\<close> only guards
  the logging and is left out.
\<close>

function condense_inner :: "error_costs \<Rightarrow> Stack \<Rightarrow> ErrorStatus \<Rightarrow> nat \<Rightarrow> nat \<Rightarrow> Stack \<times> nat" where
  "condense_inner h self status_i i j =
    (if j < i then
       (let status_j = version_status h self j;
            can_merge = ts_stack_can_merge self j i
        in case parser__compare_versions h status_j status_i of
             ErrorComparisonTakeLeft \<Rightarrow> (ts_stack_remove_version self i, i - 1)
           | ErrorComparisonPreferLeft \<Rightarrow>
               if can_merge then (ts_stack_remove_version self i, i - 1)
               else condense_inner h self status_i i (j + 1)
           | ErrorComparisonNone \<Rightarrow>
               if can_merge then (ts_stack_force_merge self j i, i - 1)
               else condense_inner h self status_i i (j + 1)
           | ErrorComparisonPreferRight \<Rightarrow>
               if can_merge
               then condense_inner h (ts_stack_remove_version self j) status_i (i - 1) j
               else (ts_stack_swap_versions self i j, i)
           | ErrorComparisonTakeRight \<Rightarrow>
               condense_inner h (ts_stack_remove_version self j) status_i (i - 1) j)
     else (self, i))"
  by pat_completeness auto
termination
  by (relation "measure (\<lambda>(h, self, status_i, i, j). i - j)") auto

declare condense_inner.simps [simp del]

text \<open>What one run of the inner loop does to the stack, for the termination of the outer loop and
  for the properties below: the versions after \<open>i\<close> are not touched.\<close>

lemma rm_length: "v < length self \<Longrightarrow> length (ts_stack_remove_version self v) = length self - 1"
  by (simp add: ts_stack_remove_version_def)

lemma rm_drop_at:
  "v < length self \<Longrightarrow> drop v (ts_stack_remove_version self v) = drop (Suc v) self"
  by (simp add: ts_stack_remove_version_def)

lemma rm_drop_below:
  "j < i \<Longrightarrow> i < length self \<Longrightarrow> drop i (ts_stack_remove_version self j) = drop (Suc i) self"
  by (simp add: ts_stack_remove_version_def min_def)

lemma swap_shape:
  "length (ts_stack_swap_versions self i j) = length self"
  "j < i \<Longrightarrow> drop (Suc i) (ts_stack_swap_versions self i j) = drop (Suc i) self"
  by (simp_all add: ts_stack_swap_versions_def)

lemma condense_inner_shape:
  "j \<le> i \<Longrightarrow> i < length self \<Longrightarrow> condense_inner h self status_i i j = (self', i') \<Longrightarrow>
     i' < length self' \<and> length self' - i' = length self - i \<and> drop (Suc i') self' = drop (Suc i) self"
proof (induction h self status_i i j arbitrary: self' i' rule: condense_inner.induct)
  case (1 h self status_i i j)
  show ?case
  proof (cases "j < i")
    case False
    then have "condense_inner h self status_i i j = (self, i)"
      by (subst condense_inner.simps) simp
    with "1.prems" show ?thesis by simp
  next
    case True
    note ji = True
    let ?c = "parser__compare_versions h (version_status h self j) status_i"
    let ?m = "ts_stack_can_merge self j i"
    have removed: "(ts_stack_remove_version self i, i - 1) = (self', i') \<Longrightarrow> ?thesis"
      using "1.prems"(2) ji by (auto simp add: rm_length rm_drop_at)
    have swapped: "(ts_stack_swap_versions self i j, i) = (self', i') \<Longrightarrow> ?thesis"
      using "1.prems"(2) ji by (auto simp add: swap_shape)
    have next_j: "\<not> (?c = ErrorComparisonTakeLeft) \<Longrightarrow> \<not> ?m \<Longrightarrow>
        ?c = ErrorComparisonPreferLeft \<or> ?c = ErrorComparisonNone \<Longrightarrow>
        condense_inner h self status_i i (j + 1) = (self', i') \<Longrightarrow> ?thesis"
      using "1.IH"(1,2) [OF ji refl refl] "1.prems"(2) ji by auto
    have below: "?c = ErrorComparisonTakeRight \<or> (?c = ErrorComparisonPreferRight \<and> ?m) \<Longrightarrow>
        condense_inner h (ts_stack_remove_version self j) status_i (i - 1) j = (self', i') \<Longrightarrow> ?thesis"
    proof -
      assume c: "?c = ErrorComparisonTakeRight \<or> (?c = ErrorComparisonPreferRight \<and> ?m)"
      assume r: "condense_inner h (ts_stack_remove_version self j) status_i (i - 1) j = (self', i')"
      have a: "j \<le> i - 1" using ji by simp
      have b: "i - 1 < length (ts_stack_remove_version self j)"
        using "1.prems"(2) ji by (simp add: rm_length)
      have "i' < length self' \<and>
            length self' - i' = length (ts_stack_remove_version self j) - (i - 1) \<and>
            drop (Suc i') self' = drop (Suc (i - 1)) (ts_stack_remove_version self j)"
        using c "1.IH"(3) [OF ji refl refl _ _ a b r] "1.IH"(4) [OF ji refl refl _ a b r]
        by auto
      then show ?thesis
        using "1.prems"(2) ji by (simp add: rm_length rm_drop_below)
    qed
    have "condense_inner h self status_i i j =
      (case ?c of
          ErrorComparisonTakeLeft \<Rightarrow> (ts_stack_remove_version self i, i - 1)
        | ErrorComparisonPreferLeft \<Rightarrow>
            if ?m then (ts_stack_remove_version self i, i - 1)
            else condense_inner h self status_i i (j + 1)
        | ErrorComparisonNone \<Rightarrow>
            if ?m then (ts_stack_force_merge self j i, i - 1)
            else condense_inner h self status_i i (j + 1)
        | ErrorComparisonPreferRight \<Rightarrow>
            if ?m then condense_inner h (ts_stack_remove_version self j) status_i (i - 1) j
            else (ts_stack_swap_versions self i j, i)
        | ErrorComparisonTakeRight \<Rightarrow>
            condense_inner h (ts_stack_remove_version self j) status_i (i - 1) j)"
      using ji by (subst condense_inner.simps) (simp add: Let_def)
    with "1.prems"(3) have eq:
      "(case ?c of
          ErrorComparisonTakeLeft \<Rightarrow> (ts_stack_remove_version self i, i - 1)
        | ErrorComparisonPreferLeft \<Rightarrow>
            if ?m then (ts_stack_remove_version self i, i - 1)
            else condense_inner h self status_i i (j + 1)
        | ErrorComparisonNone \<Rightarrow>
            if ?m then (ts_stack_force_merge self j i, i - 1)
            else condense_inner h self status_i i (j + 1)
        | ErrorComparisonPreferRight \<Rightarrow>
            if ?m then condense_inner h (ts_stack_remove_version self j) status_i (i - 1) j
            else (ts_stack_swap_versions self i j, i)
        | ErrorComparisonTakeRight \<Rightarrow>
            condense_inner h (ts_stack_remove_version self j) status_i (i - 1) j) = (self', i')"
      by simp
    show ?thesis
    proof (cases ?c)
      case ErrorComparisonTakeLeft
      with eq removed show ?thesis by simp
    next
      case ErrorComparisonPreferLeft
      with eq removed next_j show ?thesis by (cases ?m) auto
    next
      case ErrorComparisonNone
      with eq removed next_j show ?thesis
        by (cases ?m) (auto simp add: ts_stack_force_merge_def)
    next
      case ErrorComparisonPreferRight
      with eq swapped below show ?thesis by (cases ?m) auto
    next
      case ErrorComparisonTakeRight
      with eq below show ?thesis by simp
    qed
  qed
qed

text \<open>
  The outer loop \<^verbatim>\<open>for (StackVersion i = 0; i < ts_stack_version_count(self->stack); i++)\<close>
  (lines 203-268), from \<open>i\<close> on, with \<^verbatim>\<open>min_error_cost\<close> and \<^verbatim>\<open>all_versions_have_error\<close>.
  For a halted version the source writes \<^verbatim>\<open>i--; continue;\<close> and the \<^verbatim>\<open>i++\<close> of the header
  brings \<open>i\<close> back (through \<^verbatim>\<open>UINT_MAX\<close> when \<open>i = 0\<close>): the loop goes on at the same \<open>i\<close>.
\<close>

function condense_outer :: "error_costs \<Rightarrow> Stack \<Rightarrow> nat \<Rightarrow> u32 \<Rightarrow> bool \<Rightarrow> Stack \<times> u32 \<times> bool" where
  "condense_outer h self i min_error_cost all_versions_have_error =
    (if i < ts_stack_version_count self then
       (if ts_stack_is_halted self i
        then condense_outer h (ts_stack_remove_version self i) i
               min_error_cost all_versions_have_error
        else
          (let status_i = version_status h self i;
               all_versions_have_error =
                 (if \<not> is_in_error status_i then False else all_versions_have_error);
               min_error_cost =
                 (if cost status_i < min_error_cost then cost status_i else min_error_cost);
               (self', i') = condense_inner h self status_i i 0
           in condense_outer h self' (i' + 1) min_error_cost all_versions_have_error))
     else (self, min_error_cost, all_versions_have_error))"
  by pat_completeness auto
termination
proof (relation "measure (\<lambda>(h, self, i, m, a). length self - i)", goal_cases)
  case 1
  show ?case by simp
next
  case (2 h self i m a)
  then show ?case
    by (simp add: ts_stack_version_count_def rm_length)
next
  case (3 h self i m a status_i a' m' p self' i')
  then have "condense_inner h self (version_status h self i) i 0 = (self', i')"
    by simp
  moreover from 3 have "i < length self"
    by (simp add: ts_stack_version_count_def)
  ultimately have "i' < length self' \<and> length self' - i' = length self - i"
    using condense_inner_shape [of 0 i self h "version_status h self i" self' i'] by simp
  then have "length self' - Suc i' < length self - i"
    by arith
  then show ?case by simp
qed

declare condense_outer.simps [simp del]

text \<open>
  \<^verbatim>\<open>while (ts_stack_version_count(self->stack) > MAX_VERSION_COUNT)
    ts_stack_remove_version(self->stack, MAX_VERSION_COUNT);\<close>
\<close>

function condense_truncate :: "Stack \<Rightarrow> Stack" where
  "condense_truncate self =
    (if ts_stack_version_count self > MAX_VERSION_COUNT
     then condense_truncate (ts_stack_remove_version self MAX_VERSION_COUNT)
     else self)"
  by pat_completeness auto
termination
  by (relation "measure length")
     (simp_all add: ts_stack_version_count_def ts_stack_remove_version_def MAX_VERSION_COUNT_def)

declare condense_truncate.simps [simp del]

text \<open>
  \<^verbatim>\<open>parser__condense_stack\<close> (parser.c, lines 199-283) returns \<^verbatim>\<open>should_halt\<close>; the model
  returns it with the stack the function leaves. \<open>finished_tree\<close> is
  \<^verbatim>\<open>self->finished_tree\<close>, \<open>None\<close> for \<^verbatim>\<open>NULL\<close>.
\<close>

definition parser__condense_stack :: "error_costs \<Rightarrow> Tree option \<Rightarrow> Stack \<Rightarrow> bool \<times> Stack" where
  "parser__condense_stack h finished_tree self =
    (let (self1, min_error_cost, all_versions_have_error) = condense_outer h self 0 UINT_MAX True;
         self2 = condense_truncate self1
     in ((all_versions_have_error \<and> ts_stack_version_count self2 > 0) \<or>
         (case finished_tree of
            None \<Rightarrow> False
          | Some t \<Rightarrow> error_cost (data t) < min_error_cost),
         self2))"

text \<open>
  The return value as the specification words it, read on the versions that remain:
  every remaining version is in \<^verbatim>\<open>ERROR_STATE\<close>, or a finished tree exists whose error
  cost is below the cost of every remaining version.
\<close>

definition should_halt_spec :: "error_costs \<Rightarrow> Tree option \<Rightarrow> Stack \<Rightarrow> bool" where
  "should_halt_spec h finished_tree remaining =
    (list_all (head_in_error h) remaining \<or>
     (case finished_tree of
        None \<Rightarrow> False
      | Some t \<Rightarrow> list_all (\<lambda>v. error_cost (data t) < node_error_cost (node v)) remaining))"

text \<open>The versions of a stack that are not halted.\<close>

definition live_versions :: "Stack \<Rightarrow> Stack" where
  "live_versions self = filter (\<lambda>v. \<not> is_halted v) self"

text \<open>A head on a node of its own, for the examples.\<close>

definition example_head :: "nat \<Rightarrow> u16 \<Rightarrow> u32 \<Rightarrow> StackHead" where
  "example_head n s c =
    \<lparr>node = \<lparr>node_id = n, node_state = s,
              node_position = \<lparr>bytes = 10, chars = 10, extent_row = 0, extent_column = 10\<rparr>,
              node_error_cost = c\<rparr>,
     head_push_count = 0, head_last_external_token = None, is_halted = False\<rparr>"

section \<open>The language, the lexer and the tree constructors, as the driver calls them\<close>

text \<open>
  \<^verbatim>\<open>struct Lexer\<close> (\<^verbatim>\<open>runtime/lexer.h\<close>, not among the sources) with the fields
  \<^verbatim>\<open>parser__lex\<close> reads and writes: the three positions and, of \<^verbatim>\<open>lexer.data\<close>,
  \<^verbatim>\<open>lookahead\<close> (here \<open>data_lookahead\<close>) and \<^verbatim>\<open>result_symbol\<close>. \<open>hidden\<close> is everything else the lexing callbacks
  own: the input and its current chunk, and \<^verbatim>\<open>external_scanner_payload\<close>.
\<close>

record 'x Lexer =
  current_position :: Length
  token_start_position :: Length
  token_end_position :: Length
  data_lookahead :: u32
  result_symbol :: u16
  hidden :: 'x

text \<open>\<^verbatim>\<open>TableEntry\<close> (\<^verbatim>\<open>runtime/language.h\<close>), with the fields \<^verbatim>\<open>parser.c\<close> reads here.\<close>

record TableEntry =
  action_count :: u32
  is_reusable :: bool
  depends_on_lookahead :: bool

text \<open>
  The code the driver calls and that is not among the sources is a parameter of the
  model, one field for each function or constant, under its name in the source:
  the \<^verbatim>\<open>TSLanguage\<close> tables and callbacks (the specification treats them as opaque),
  the builtin symbols of \<^verbatim>\<open>tree_sitter/parser.h\<close>, and the functions of \<^verbatim>\<open>lexer.c\<close>,
  \<^verbatim>\<open>length.h\<close>, \<^verbatim>\<open>language.h\<close> and \<^verbatim>\<open>tree.c\<close>, and \<^verbatim>\<open>ts_stack_push\<close> of \<^verbatim>\<open>stack.c\<close>, which
  takes the pointer to the tree it pushes. A callback that writes through a pointer
  returns the new value. \<open>lexer_advance\<close> is \<^verbatim>\<open>self->lexer.data.advance(&self->lexer, false)\<close>;
  \<open>ts_language_enabled_external_tokens\<close> returns \<open>None\<close> for \<^verbatim>\<open>NULL\<close>. The functions
  that take a \<^verbatim>\<open>TSLanguage *\<close> in the source take this record, under the name \<open>language\<close>.
\<close>

record 'x externals =
  ts_builtin_sym_error :: u16
  ts_builtin_sym_end :: u16
  lex_modes :: "u16 \<Rightarrow> TSLexMode"
  ts_language_enabled_external_tokens :: "u16 \<Rightarrow> bool list option"
  ts_language_table_entry :: "u16 \<Rightarrow> u16 \<Rightarrow> TableEntry"
  external_scanner_scan :: "bool list \<Rightarrow> 'x Lexer \<Rightarrow> bool \<times> 'x Lexer"
  external_scanner_deserialize :: "8 word list \<Rightarrow> 'x Lexer \<Rightarrow> 'x Lexer"
  external_scanner_serialize :: "'x Lexer \<Rightarrow> 8 word list"
  external_scanner_symbol_map :: "u16 \<Rightarrow> u16"
  lex_fn :: "u16 \<Rightarrow> 'x Lexer \<Rightarrow> bool \<times> 'x Lexer"
  lexer_advance :: "'x Lexer \<Rightarrow> 'x Lexer"
  ts_lexer_reset :: "Length \<Rightarrow> 'x Lexer \<Rightarrow> 'x Lexer"
  ts_lexer_start :: "'x Lexer \<Rightarrow> 'x Lexer"
  length_has_unknown_chars :: "Length \<Rightarrow> bool"
  length_sub :: "Length \<Rightarrow> Length \<Rightarrow> Length"
  ts_tree_make_leaf :: "u16 \<Rightarrow> Length \<Rightarrow> Length \<Rightarrow> Tree"
  ts_tree_make_error :: "Length \<Rightarrow> Length \<Rightarrow> u32 \<Rightarrow> Tree"
  ts_tree_last_external_token :: "Tree \<Rightarrow> Tree option"
  ts_stack_push :: "Stack \<Rightarrow> nat \<Rightarrow> nat option \<Rightarrow> bool \<Rightarrow> u16 \<Rightarrow> Stack"

section \<open>Lexing one token (parser.c)\<close>

text \<open>
  \<^verbatim>\<open>parser__restore_external_scanner\<close> (lines 285-295): the state of the last external
  token, or no bytes for \<^verbatim>\<open>NULL\<close>.
\<close>

definition parser__restore_external_scanner ::
  "'x externals \<Rightarrow> Tree option \<Rightarrow> 'x Lexer \<Rightarrow> 'x Lexer" where
  "parser__restore_external_scanner language external_token lx =
    (case external_token of
       Some t \<Rightarrow> external_scanner_deserialize language (external_token_state (data t)) lx
     | None \<Rightarrow> external_scanner_deserialize language [] lx)"

text \<open>The local variables of \<^verbatim>\<open>parser__lex\<close> that its loop changes, with the lexer.\<close>

record 'x lex_vars =
  self_lexer :: "'x Lexer"
  lex_mode :: TSLexMode
  valid_external_tokens :: "bool list option"
  found_external_token :: bool
  skipped_error :: bool
  error_mode :: bool
  first_error_character :: u32
  error_start_position :: Length
  error_end_position :: Length
  last_byte_scanned :: u32

text \<open>
  \<^verbatim>\<open>if (self->lexer.current_position.bytes > last_byte_scanned)
    last_byte_scanned = self->lexer.current_position.bytes;\<close>
\<close>

definition note_byte_scanned :: "'x Lexer \<Rightarrow> u32 \<Rightarrow> u32" where
  "note_byte_scanned lx scanned =
    (if bytes (current_position lx) > scanned then bytes (current_position lx) else scanned)"

text \<open>
  \<^verbatim>\<open>if (length_has_unknown_chars(self->lexer.token_end_position))
    self->lexer.token_end_position = self->lexer.current_position;\<close>
\<close>

definition fix_token_end :: "'x externals \<Rightarrow> 'x Lexer \<Rightarrow> 'x Lexer" where
  "fix_token_end language lx =
    (if length_has_unknown_chars language (token_end_position lx)
     then lx\<lparr>token_end_position := current_position lx\<rparr> else lx)"

text \<open>
  The block \<^verbatim>\<open>if (valid_external_tokens) { ... }\<close> of the loop (lines 317-347).
  \<open>current_position\<close> is the local of that name, read from the lexer at the top of the
  iteration. The result is \<open>True\<close> with the variables when the block leaves the loop by
  \<^verbatim>\<open>break\<close>, which it does after setting \<^verbatim>\<open>found_external_token\<close>, and \<open>False\<close> when control
  goes on to the internal lexer.
\<close>

definition lex_external :: "'x externals \<Rightarrow> Tree option \<Rightarrow> 'x lex_vars \<Rightarrow> bool \<times> 'x lex_vars" where
  "lex_external language external_token v =
    (let current_position = current_position (self_lexer v) in
     case valid_external_tokens v of
       None \<Rightarrow> (False, v)
     | Some valid \<Rightarrow>
         (let lx = ts_lexer_start language (self_lexer v);
              lx = parser__restore_external_scanner language external_token lx;
              (scanned, lx) = external_scanner_scan language valid lx;
              lx = (if scanned then fix_token_end language lx else lx)
          in if scanned \<and>
                \<not> (error_mode v \<and> bytes (token_end_position lx) \<le> bytes current_position)
             then (True, v\<lparr>self_lexer := lx, found_external_token := True\<rparr>)
             else (False, v\<lparr>last_byte_scanned := note_byte_scanned lx (last_byte_scanned v),
                             self_lexer := ts_lexer_reset language current_position lx\<rparr>)))"

text \<open>
  The rest of the loop body (lines 349-394), the internal lexer and the skipping of
  unrecognized characters. \<open>True\<close> is a \<^verbatim>\<open>break\<close>, \<open>False\<close> the next iteration (by
  \<^verbatim>\<open>continue\<close> or at the end of the body).
\<close>

definition lex_internal ::
  "error_costs \<Rightarrow> 'x externals \<Rightarrow> Length \<Rightarrow> 'x lex_vars \<Rightarrow> bool \<times> 'x lex_vars" where
  "lex_internal h language start_position v =
    (let lx = ts_lexer_start language (self_lexer v);
         (lexed, lx) = lex_fn language (lex_state (lex_mode v)) lx
     in if lexed then (True, v\<lparr>self_lexer := fix_token_end language lx\<rparr>)
        else if \<not> error_mode v then
          (let mode = lex_modes language (ERROR_STATE h) in
           (False, v\<lparr>error_mode := True,
                      lex_mode := mode,
                      valid_external_tokens :=
                        ts_language_enabled_external_tokens language (external_lex_state mode),
                      last_byte_scanned := note_byte_scanned lx (last_byte_scanned v),
                      self_lexer := ts_lexer_reset language start_position lx\<rparr>))
        else
          (let v = (if \<not> skipped_error v
                    then v\<lparr>skipped_error := True,
                           error_start_position := token_start_position lx,
                           error_end_position := token_start_position lx,
                           first_error_character := data_lookahead lx\<rparr>
                    else v)
           in if bytes (current_position lx) = bytes (error_end_position v) then
                (if data_lookahead lx = 0
                 then (True, v\<lparr>self_lexer := lx\<lparr>result_symbol := ts_builtin_sym_error language\<rparr>\<rparr>)
                 else (let lx = lexer_advance language lx
                       in (False, v\<lparr>self_lexer := lx, error_end_position := current_position lx\<rparr>)))
              else (False, v\<lparr>self_lexer := lx, error_end_position := current_position lx\<rparr>)))"

text \<open>One iteration of \<^verbatim>\<open>for (;;)\<close>: the external block, then the internal one.\<close>

definition lex_iteration ::
  "error_costs \<Rightarrow> 'x externals \<Rightarrow> Length \<Rightarrow> Tree option \<Rightarrow> 'x lex_vars \<Rightarrow> bool \<times> 'x lex_vars" where
  "lex_iteration h language start_position external_token v =
    (let (left, v) = lex_external language external_token v
     in if left then (True, v) else lex_internal h language start_position v)"

text \<open>
  The loop \<^verbatim>\<open>for (;;)\<close> (lines 314-395). Whether it ends is up to the callbacks: \<open>None\<close>
  is a loop that does not end.
\<close>

partial_function (option) lex_loop ::
  "error_costs \<Rightarrow> 'x externals \<Rightarrow> Length \<Rightarrow> Tree option \<Rightarrow> 'x lex_vars \<Rightarrow> 'x lex_vars option" where
  "lex_loop h language start_position external_token v =
    (case lex_iteration h language start_position external_token v of
       (left, v') \<Rightarrow>
         if left then Some v' else lex_loop h language start_position external_token v')"

declare lex_loop.simps [code]

text \<open>
  The variables of \<^verbatim>\<open>parser__lex\<close> on entry to its loop (lines 298-312).
  \<open>start_position\<close> is what the source reads from the stack for \<open>version\<close>
  (\<^verbatim>\<open>ts_stack_top_position\<close>), \<open>state\<close> is the argument \<^verbatim>\<open>parse_state\<close>. The two error
  positions are not initialised in the source and not read before they are written; they
  start at \<open>start_position\<close> here.
\<close>

definition lex_start ::
  "error_costs \<Rightarrow> 'x externals \<Rightarrow> 'x Lexer \<Rightarrow> Length \<Rightarrow> u16 \<Rightarrow> 'x lex_vars" where
  "lex_start h language lx start_position state =
    (let mode = lex_modes language state
     in \<lparr>self_lexer = ts_lexer_reset language start_position lx,
         lex_mode = mode,
         valid_external_tokens =
           ts_language_enabled_external_tokens language (external_lex_state mode),
         found_external_token = False,
         skipped_error = False,
         error_mode = (state = ERROR_STATE h),
         first_error_character = 0,
         error_start_position = start_position,
         error_end_position = start_position,
         last_byte_scanned = bytes start_position\<rparr>)"

text \<open>
  The tree that \<^verbatim>\<open>parser__lex\<close> makes once the loop is left (lines 397-430), with the
  lexer: the error leaf of the skipped characters if any were skipped, else the leaf of
  the token, marked as an external token if \<^verbatim>\<open>found_external_token\<close> is set.
\<close>

definition lex_result ::
  "'x externals \<Rightarrow> Length \<Rightarrow> u16 \<Rightarrow> 'x lex_vars \<Rightarrow> Tree \<times> 'x Lexer" where
  "lex_result language start_position state v =
    (let lx = self_lexer v;
         result =
           (if skipped_error v then
              ts_tree_make_error language
                (length_sub language (error_end_position v) (error_start_position v))
                (length_sub language (error_start_position v) start_position)
                (first_error_character v)
            else
              (let sym =
                     (if found_external_token v
                      then external_scanner_symbol_map language (result_symbol lx)
                      else result_symbol lx);
                   leaf = ts_tree_make_leaf language sym
                            (length_sub language (token_start_position lx) start_position)
                            (length_sub language (token_end_position lx)
                               (token_start_position lx))
               in if found_external_token v
                  then Tree ((data leaf)\<lparr>has_external_tokens := True,
                               external_token_state :=
                                 external_scanner_serialize language lx\<rparr>)
                         (children leaf)
                  else leaf));
         scanned = note_byte_scanned lx (last_byte_scanned v)
     in (Tree ((data result)\<lparr>bytes_scanned := scanned - bytes start_position + 1,
                  parse_state := state,
                  first_leaf_lex_mode := lex_mode v\<rparr>)
           (children result),
         lx))"

text \<open>
  \<^verbatim>\<open>parser__lex\<close> (lines 297-431): the variables are set up, the loop runs, and the tree
  is made. \<open>external_token\<close> is what the source reads from the stack for \<open>version\<close>
  (\<^verbatim>\<open>ts_stack_last_external_token\<close>). The result is the new leaf and the lexer; \<open>None\<close> is
  a loop that does not end.
\<close>

definition parser__lex ::
  "error_costs \<Rightarrow> 'x externals \<Rightarrow> 'x Lexer \<Rightarrow> Length \<Rightarrow> Tree option \<Rightarrow> u16
    \<Rightarrow> (Tree \<times> 'x Lexer) option" where
  "parser__lex h language lx start_position external_token state =
    (case lex_loop h language start_position external_token
            (lex_start h language lx start_position state) of
       None \<Rightarrow> None
     | Some v \<Rightarrow> Some (lex_result language start_position state v))"

section \<open>Trees behind pointers: reference counts and the token cache\<close>

text \<open>
  The lookahead token, the token of the cache and the copies that \<^verbatim>\<open>parser__shift\<close> makes
  are objects that several pointers can hold at once. They live in a store: a \<^verbatim>\<open>Tree *\<close>
  to one of them is the index of its cell, \<open>None\<close> is an empty cell. The children of a tree
  stay inside its value.
\<close>

type_synonym tree_store = "Tree option list"

definition deref :: "tree_store \<Rightarrow> nat \<Rightarrow> Tree option" where
  "deref m p = (if p < length m then m ! p else None)"

text \<open>
  Modelled from the spec: \<^verbatim>\<open>ts_tree_retain\<close>, \<^verbatim>\<open>ts_tree_release\<close> and \<^verbatim>\<open>ts_tree_make_copy\<close>
  are defined in \<^verbatim>\<open>tree.c\<close>, which is not among the sources. The specification:
  "ref_count (strong refs)"; "Release decrements; zero frees children first (releasing
  their refs) and returns the node to its slab"; "make_copy(t): shallow copy; children
  retained", "published with ref_count=1". The copy takes a cell that no tree occupies,
  here a new one at the end of the store. A pointer to an empty cell changes nothing.
\<close>

definition ts_tree_retain :: "tree_store \<Rightarrow> nat \<Rightarrow> tree_store" where
  "ts_tree_retain m p =
    (case deref m p of
       None \<Rightarrow> m
     | Some t \<Rightarrow> m[p := Some (Tree ((data t)\<lparr>ref_count := ref_count (data t) + 1\<rparr>) (children t))])"

definition ts_tree_release :: "tree_store \<Rightarrow> nat \<Rightarrow> tree_store" where
  "ts_tree_release m p =
    (case deref m p of
       None \<Rightarrow> m
     | Some t \<Rightarrow>
         if ref_count (data t) - 1 = 0 then m[p := None]
         else m[p := Some (Tree ((data t)\<lparr>ref_count := ref_count (data t) - 1\<rparr>) (children t))])"

definition ts_tree_make_copy :: "tree_store \<Rightarrow> nat \<Rightarrow> nat \<times> tree_store" where
  "ts_tree_make_copy m p =
    (length m,
     m @ [case deref m p of
            None \<Rightarrow> None
          | Some t \<Rightarrow> Some (Tree ((data t)\<lparr>ref_count := 1\<rparr>) (children t))])"

text \<open>
  Modelled from the spec: \<^verbatim>\<open>ts_tree_external_token_state_eq\<close> (\<^verbatim>\<open>tree.c\<close>) "compares the
  opaque blobs produced by the external scanner's serialize callback (both NULL: equal)";
  a \<^verbatim>\<open>NULL\<close> tree stands for the empty blob.
\<close>

definition ts_tree_external_token_state_eq :: "Tree option \<Rightarrow> Tree option \<Rightarrow> bool" where
  "ts_tree_external_token_state_eq a b =
    ((case a of None \<Rightarrow> [] | Some t \<Rightarrow> external_token_state (data t)) =
     (case b of None \<Rightarrow> [] | Some t \<Rightarrow> external_token_state (data t)))"

text \<open>
  \<^verbatim>\<open>TokenCache\<close> (\<^verbatim>\<open>runtime/parser.h\<close>): \<^verbatim>\<open>token\<close>, \<^verbatim>\<open>byte_index\<close> and
  \<^verbatim>\<open>last_external_token\<close>. Of the last external token the driver only compares the
  serialized state, so the cache holds the tree itself.
\<close>

record TokenCache =
  token :: "nat option"
  cache_byte_index :: u32
  cache_last_external_token :: "Tree option"

text \<open>
  The part of \<^verbatim>\<open>struct Parser\<close> (\<^verbatim>\<open>runtime/parser.h\<close>) that \<^verbatim>\<open>parser__get_lookahead\<close> and
  \<^verbatim>\<open>parser__shift\<close> work on, with the store of the trees.
\<close>

record 'x Parser =
  lexer :: "'x Lexer"
  stack :: Stack
  token_cache :: TokenCache
  in_ambiguity :: bool
  store :: tree_store



text \<open>\<^verbatim>\<open>parser__can_reuse_first_leaf\<close> (lines 456-466).\<close>

definition parser__can_reuse_first_leaf ::
  "'x externals \<Rightarrow> u16 \<Rightarrow> Tree \<Rightarrow> TableEntry \<Rightarrow> bool" where
  "parser__can_reuse_first_leaf language state t table_entry =
    (let current_lex_mode = lex_modes language state in
     (lex_state (first_leaf_lex_mode (data t)) = lex_state current_lex_mode \<and>
      external_lex_state (first_leaf_lex_mode (data t)) = external_lex_state current_lex_mode) \<or>
     (external_lex_state current_lex_mode = 0 \<and>
      bytes (tree_size (data t)) > 0 \<and>
      is_reusable table_entry \<and>
      (\<not> depends_on_lookahead table_entry \<or> (child_count t > 1 \<and> error_cost (data t) = 0))))"

section \<open>The reusable-node cursor\<close>

text \<open>
  Modelled from the spec: \<^verbatim>\<open>runtime/reusable_node.h\<close> is not among the sources. The
  specification: the cursor "maintains a pointer into a previous tree plus the cumulative
  byte offset at that pointer and the last external-token state seen before it.
  advance / pop: move to the next sibling or unwind to the next aunt. breakdown: replace
  the current position with its first child (descend one level). Fails if the current
  node is a leaf. pop_leaf: skip the current leaf and advance."
  The position in the previous tree is the subtree \<open>tree\<close> it points to (\<open>None\<close> past the
  end) with \<open>following\<close>, the subtrees that come after it in byte order: its later
  siblings, then those of its parent, and so on up to the root. The next sibling, or the
  next aunt when there is none, is the head of that list.
\<close>

record ReusableNode =
  tree :: "Tree option"
  following :: "Tree list"
  byte_index :: u32
  last_external_token :: "Tree option"


definition reusable_node_pop :: "'x externals \<Rightarrow> ReusableNode \<Rightarrow> ReusableNode" where
  "reusable_node_pop language self =
    (case tree self of
       None \<Rightarrow> self
     | Some t \<Rightarrow>
         \<lparr>tree = (case following self of [] \<Rightarrow> None | n # ns \<Rightarrow> Some n),
          following = tl (following self),
          byte_index = byte_index self + ts_tree_total_bytes t,
          last_external_token =
            (if has_external_tokens (data t) then ts_tree_last_external_token language t
             else last_external_token self)\<rparr>)"

definition reusable_node_breakdown :: "ReusableNode \<Rightarrow> bool \<times> ReusableNode" where
  "reusable_node_breakdown self =
    (case tree self of
       None \<Rightarrow> (False, self)
     | Some t \<Rightarrow>
         (case children t of
            [] \<Rightarrow> (False, self)
          | c # cs \<Rightarrow> (True, self\<lparr>tree := Some c, following := cs @ following self\<rparr>)))"

text \<open>The descent of \<open>pop_leaf\<close> to the first leaf below the current node.\<close>

fun descend_to_leaf :: "Tree \<Rightarrow> Tree list \<Rightarrow> Tree \<times> Tree list" where
  "descend_to_leaf (Tree d []) rest = (Tree d [], rest)"
| "descend_to_leaf (Tree d (c # cs)) rest = descend_to_leaf c (cs @ rest)"

definition reusable_node_pop_leaf :: "'x externals \<Rightarrow> ReusableNode \<Rightarrow> ReusableNode" where
  "reusable_node_pop_leaf language self =
    (case tree self of
       None \<Rightarrow> self
     | Some t \<Rightarrow>
         (let (leaf, rest) = descend_to_leaf t (following self)
          in reusable_node_pop language (self\<lparr>tree := Some leaf, following := rest\<rparr>)))"

text \<open>The number of nodes the cursor still has before it: what its moves use up.\<close>

fun tree_nodes :: "Tree \<Rightarrow> nat" where
  "tree_nodes (Tree d cs) = Suc (sum_list (map tree_nodes cs))"

definition cursor_nodes :: "ReusableNode \<Rightarrow> nat" where
  "cursor_nodes self =
    (case tree self of None \<Rightarrow> 0 | Some t \<Rightarrow> tree_nodes t) + sum_list (map tree_nodes (following self))"

text \<open>Every move of the cursor leaves fewer nodes before it.\<close>

lemma tree_nodes_positive: "0 < tree_nodes t"
  by (cases t) simp

lemma cursor_pop_decreases:
  "tree self = Some t \<Longrightarrow> cursor_nodes (reusable_node_pop language self) < cursor_nodes self"
  using tree_nodes_positive [of t]
  by (cases "following self") (simp_all add: cursor_nodes_def reusable_node_pop_def)

lemma cursor_breakdown_decreases:
  assumes "fst (reusable_node_breakdown self)"
  shows "cursor_nodes (snd (reusable_node_breakdown self)) < cursor_nodes self"
proof (cases "tree self")
  case None
  with assms show ?thesis by (simp add: reusable_node_breakdown_def)
next
  case (Some t)
  obtain d cs where t: "t = Tree d cs" by (cases t)
  from assms Some t show ?thesis
    by (cases cs) (simp_all add: reusable_node_breakdown_def cursor_nodes_def)
qed

section \<open>Getting the lookahead (parser.c)\<close>

text \<open>
  The reason for which \<^verbatim>\<open>parser__get_lookahead\<close> refuses a candidate before it looks at
  the parse table (lines 492-501): \<open>None\<close> is \<^verbatim>\<open>reason == NULL\<close>.
\<close>

definition cant_reuse_reason :: "'x externals \<Rightarrow> bool \<Rightarrow> Tree \<Rightarrow> string option" where
  "cant_reuse_reason language ambiguity t =
    (if has_changes (data t) then Some ''has_changes''
     else if symbol (data t) = ts_builtin_sym_error language then Some ''is_error''
     else if fragile_left (data t) \<or> fragile_right (data t) then Some ''is_fragile''
     else if ambiguity \<and> child_count t \<noteq> 0 then Some ''in_ambiguity''
     else None)"

text \<open>
  What the loop \<^verbatim>\<open>while ((result = reusable_node->tree))\<close> of \<^verbatim>\<open>parser__get_lookahead\<close>
  (lines 474-527) leaves behind: the reused tree with its table entry if it returned one
  (\<open>None\<close> if the loop was left by \<^verbatim>\<open>break\<close> or ran out of nodes), the stack, \<^verbatim>\<open>*state\<close> and
  the cursor.
\<close>

record reuse_result =
  reused :: "(Tree \<times> TableEntry) option"
  reuse_stack :: Stack
  reuse_state :: u16
  reuse_node :: ReusableNode

text \<open>
  The loop. \<open>position\<close> and \<open>last_external_token\<close> are read from the stack once, before
  the loop. \<^verbatim>\<open>parser__breakdown_top_of_stack\<close> (lines 73-119) rebuilds the top of one
  version through \<^verbatim>\<open>ts_stack_pop_pending\<close> and \<^verbatim>\<open>ts_stack_push\<close>, on links of the graph that
  the stack of this model does not have: it is the parameter \<open>breakdown_top_of_stack\<close>.
  The tree that is reused is a node of the previous tree, which the cursor holds by
  value; \<^verbatim>\<open>ts_tree_retain(result)\<close> is the increment of its count in the value returned.
\<close>

function reuse_loop ::
  "'x externals \<Rightarrow> (Stack \<Rightarrow> nat \<Rightarrow> Stack) \<Rightarrow> bool \<Rightarrow> Length \<Rightarrow> Tree option \<Rightarrow> nat
    \<Rightarrow> Stack \<Rightarrow> u16 \<Rightarrow> ReusableNode \<Rightarrow> reuse_result" where
  "reuse_loop language breakdown_top_of_stack ambiguity position last_token version
      stk state reusable_node =
    (case tree reusable_node of
       None \<Rightarrow>
         \<lparr>reused = None, reuse_stack = stk, reuse_state = state,
          reuse_node = reusable_node\<rparr>
     | Some result \<Rightarrow>
         if byte_index reusable_node > bytes position then
           \<lparr>reused = None, reuse_stack = stk, reuse_state = state,
            reuse_node = reusable_node\<rparr>
         else if byte_index reusable_node < bytes position then
           reuse_loop language breakdown_top_of_stack ambiguity position last_token version
             stk state (reusable_node_pop language reusable_node)
         else if \<not> ts_tree_external_token_state_eq (last_external_token reusable_node) last_token then
           reuse_loop language breakdown_top_of_stack ambiguity position last_token version
             stk state (reusable_node_pop language reusable_node)
         else if cant_reuse_reason language ambiguity result \<noteq> None then
           (if fst (reusable_node_breakdown reusable_node) then
              reuse_loop language breakdown_top_of_stack ambiguity position last_token version
                stk state (snd (reusable_node_breakdown reusable_node))
            else
              (let stk' = breakdown_top_of_stack stk version in
               reuse_loop language breakdown_top_of_stack ambiguity position last_token version
                 stk' (ts_stack_top_state stk' version)
                 (reusable_node_pop language reusable_node)))
         else
           (let table_entry =
                  ts_language_table_entry language state (first_leaf_symbol (data result))
            in if \<not> parser__can_reuse_first_leaf language state result table_entry then
                 \<lparr>reused = None, reuse_stack = stk, reuse_state = state,
                  reuse_node = reusable_node_pop_leaf language reusable_node\<rparr>
               else
                 \<lparr>reused = Some (Tree ((data result)\<lparr>ref_count := ref_count (data result) + 1\<rparr>)
                                  (children result), table_entry),
                  reuse_stack = stk, reuse_state = state,
                  reuse_node = reusable_node\<rparr>))"
  by pat_completeness auto
termination
  by (relation "measure (\<lambda>(language, breakdown_top_of_stack, ambiguity, position, last_token,
                            version, stk, state, reusable_node). cursor_nodes reusable_node)")
     (simp_all add: cursor_pop_decreases cursor_breakdown_decreases)

declare reuse_loop.simps [simp del]

text \<open>
  What \<^verbatim>\<open>parser__get_lookahead\<close> returns: a node of the previous tree, the token of the
  cache, or a token the lexer has just produced; the last two are pointers into the
  store. With the pointer go the values the function leaves in \<^verbatim>\<open>*state\<close>,
  \<^verbatim>\<open>*reusable_node\<close>, \<^verbatim>\<open>*table_entry\<close> and \<^verbatim>\<open>*self\<close>.
\<close>

datatype lookahead = ReusedNode Tree | CachedToken nat | LexedToken nat




section \<open>Shifting the lookahead (parser.c)\<close>

text \<open>\<^verbatim>\<open>lookahead->extra = extra;\<close> on the tree in cell \<open>p\<close>.\<close>

definition set_extra :: "tree_store \<Rightarrow> nat \<Rightarrow> bool \<Rightarrow> tree_store" where
  "set_extra m p e =
    (case deref m p of
       None \<Rightarrow> m
     | Some t \<Rightarrow> m[p := Some (Tree ((data t)\<lparr>extra := e\<rparr>) (children t))])"

text \<open>
  \<^verbatim>\<open>parser__shift\<close> (lines 593-614); \<open>e\<close> is the argument \<^verbatim>\<open>extra\<close>. The node that
  \<^verbatim>\<open>ts_stack_push\<close> makes keeps a reference to the tree (the specification: subtrees are
  "retained by stack nodes"), which is the \<^verbatim>\<open>ts_tree_retain\<close> after the push.
\<close>

definition parser__shift ::
  "'x externals \<Rightarrow> 'x Parser \<Rightarrow> nat \<Rightarrow> u16 \<Rightarrow> nat \<Rightarrow> bool \<Rightarrow> 'x Parser" where
  "parser__shift language self version state lookahead e =
    (let m = store self;
         differs = (case deref m lookahead of None \<Rightarrow> False | Some t \<Rightarrow> e \<noteq> extra (data t));
         (lookahead, m) =
           (if differs then
              (let (p, m) = (if ts_stack_version_count (stack self) > 1
                             then ts_tree_make_copy m lookahead
                             else (lookahead, ts_tree_retain m lookahead))
               in (p, set_extra m p e))
            else (lookahead, ts_tree_retain m lookahead));
         is_pending = (case deref m lookahead of None \<Rightarrow> False | Some t \<Rightarrow> child_count t > 0);
         stk = ts_stack_push language (stack self) version (Some lookahead) is_pending state;
         m = ts_tree_retain m lookahead;
         stk = (case deref m lookahead of
                  None \<Rightarrow> stk
                | Some t \<Rightarrow>
                    if has_external_tokens (data t)
                    then ts_stack_set_last_external_token stk version
                           (ts_tree_last_external_token language t)
                    else stk);
         m = ts_tree_release m lookahead
     in self\<lparr>stack := stk, store := m\<rparr>)"

section \<open>Concrete inputs for the examples\<close>

text \<open>
  Values of \<^verbatim>\<open>error_costs.h\<close> for the examples: \<^verbatim>\<open>ERROR_STATE\<close> is 0 and a skipped tree costs
  100, so that \<^verbatim>\<open>MAX_COST_DIFFERENCE\<close> is 1600.
\<close>

definition example_costs :: error_costs where
  "example_costs = \<lparr>ERROR_STATE = 0, ERROR_COST_PER_SKIPPED_TREE = 100\<rparr>"

definition zero_length :: Length where
  "zero_length = \<lparr>bytes = 0, chars = 0, extent_row = 0, extent_column = 0\<rparr>"

text \<open>
  A small language for the examples. State 2 has the external lex state 1, in which one
  external token is valid; the other states have none. Its external scanner accepts at
  once, an empty token; its internal lexer accepts the next byte as the token 3. The
  parse table calls every tree reusable, and says of the symbol 7 that it depends on the
  lookahead.
\<close>

definition example_language :: "unit externals" where
  "example_language =
    \<lparr>ts_builtin_sym_error = - 1,
     ts_builtin_sym_end = 0,
     lex_modes = (\<lambda>s. \<lparr>lex_state = s, external_lex_state = (if s = 2 then 1 else 0)\<rparr>),
     ts_language_enabled_external_tokens = (\<lambda>e. if e = 0 then None else Some [True]),
     ts_language_table_entry =
       (\<lambda>s sym. \<lparr>action_count = 1, is_reusable = True, depends_on_lookahead = (sym = 7)\<rparr>),
     external_scanner_scan =
       (\<lambda>valid lx. (True, lx\<lparr>token_end_position := current_position lx, result_symbol := 0\<rparr>)),
     external_scanner_deserialize = (\<lambda>bs lx. lx),
     external_scanner_serialize = (\<lambda>lx. []),
     external_scanner_symbol_map = (\<lambda>s. 5),
     lex_fn =
       (\<lambda>s lx. (True, lx\<lparr>current_position :=
                            (current_position lx)\<lparr>bytes := bytes (current_position lx) + 1,
                                                   chars := chars (current_position lx) + 1\<rparr>,
                          token_end_position :=
                            (current_position lx)\<lparr>bytes := bytes (current_position lx) + 1,
                                                   chars := chars (current_position lx) + 1\<rparr>,
                          result_symbol := 3\<rparr>)),
     lexer_advance = (\<lambda>lx. lx),
     ts_lexer_reset = (\<lambda>p lx. lx\<lparr>current_position := p\<rparr>),
     ts_lexer_start = (\<lambda>lx. lx\<lparr>token_start_position := current_position lx\<rparr>),
     length_has_unknown_chars = (\<lambda>l. False),
     length_sub =
       (\<lambda>a b. \<lparr>bytes = bytes a - bytes b, chars = chars a - chars b,
               extent_row = extent_row a - extent_row b,
               extent_column = extent_column a - extent_column b\<rparr>),
     ts_tree_make_leaf =
       (\<lambda>s p z. Tree ((data (example_leaf s 0 0))\<lparr>padding := p, tree_size := z\<rparr>) []),
     ts_tree_make_error =
       (\<lambda>z p c. Tree ((data (example_leaf (- 1) 1 0))\<lparr>padding := p, tree_size := z\<rparr>) []),
     ts_tree_last_external_token = (\<lambda>t. if has_external_tokens (data t) then Some t else None),
     ts_stack_push =
       (\<lambda>stk v t pending s.
          stk[v := (stk ! v)\<lparr>node := (node (stk ! v))\<lparr>node_id := node_id (node (stk ! v)) + 100,
                                                      node_state := s\<rparr>,
                              head_push_count := head_push_count (stk ! v) + 1\<rparr>])\<rparr>"

definition example_lexer :: "unit Lexer" where
  "example_lexer =
    \<lparr>current_position = zero_length, token_start_position = zero_length,
     token_end_position = zero_length, data_lookahead = 97, result_symbol = 0, hidden = ()\<rparr>"

text \<open>
  The variables of \<^verbatim>\<open>parser__lex\<close> on entry to its loop at byte 0 in the parse state 2, in
  error mode or not.
\<close>

definition example_lex_vars :: "bool \<Rightarrow> unit lex_vars" where
  "example_lex_vars in_error =
    \<lparr>self_lexer = example_lexer,
     lex_mode = \<lparr>lex_state = 2, external_lex_state = 1\<rparr>,
     valid_external_tokens = Some [True],
     found_external_token = False,
     skipped_error = False,
     error_mode = in_error,
     first_error_character = 0,
     error_start_position = zero_length,
     error_end_position = zero_length,
     last_byte_scanned = 0\<rparr>"

text \<open>
  Seven versions, none halted, on nodes of their own: six outside the error state with
  the cost 1000, and after them one in the error state with the cost 500.
\<close>

definition example_stack :: Stack where
  "example_stack =
    [example_head 1 1 1000, example_head 2 1 1000, example_head 3 1 1000,
     example_head 4 1 1000, example_head 5 1 1000, example_head 6 1 1000,
     example_head 7 0 500]"

text \<open>
  A parser with one version, in the state \<open>s\<close> at byte 10, whose cache holds for byte 10
  the token in cell 0 of the store: a leaf with the symbol 3 that was lexed in the lex
  mode of state 1 and that \<open>count\<close> pointers hold.
\<close>

definition example_token :: "u32 \<Rightarrow> Tree" where
  "example_token count =
    Tree ((data (example_leaf 3 0 0))
            \<lparr>first_leaf_lex_mode := \<lparr>lex_state = 1, external_lex_state = 0\<rparr>,
             ref_count := count\<rparr>) []"

definition example_parser :: "u16 \<Rightarrow> u32 \<Rightarrow> unit Parser" where
  "example_parser s count =
    \<lparr>lexer = example_lexer,
     stack = [example_head 1 s 0],
     token_cache = \<lparr>token = Some 0, cache_byte_index = 10, cache_last_external_token = None\<rparr>,
     in_ambiguity = False,
     store = [Some (example_token count)]\<rparr>"

text \<open>
  A cursor at byte 10 on a node of the previous tree with the symbol 8, the error cost
  \<open>c\<close> and two children: the first an error-free node of two leaves, all with the first
  leaf 7, which was lexed in the lex mode of state 2.
\<close>

definition example_node :: "u16 \<Rightarrow> u32 \<Rightarrow> Tree list \<Rightarrow> Tree" where
  "example_node s c cs =
    Tree ((data (example_leaf s c 0))
            \<lparr>first_leaf_symbol := 7,
             first_leaf_lex_mode := \<lparr>lex_state = 2, external_lex_state = 1\<rparr>\<rparr>) cs"

definition example_cursor :: "u32 \<Rightarrow> ReusableNode" where
  "example_cursor c =
    \<lparr>tree = Some (example_node 8 c
              [example_node 9 0 [example_node 7 0 [], example_node 4 0 []],
               example_node 4 c []]),
     following = [],
     byte_index = 10,
     last_external_token = None\<rparr>"

text \<open>A breakdown of the top of the stack that finds no pending link.\<close>

definition example_breakdown :: "Stack \<Rightarrow> nat \<Rightarrow> Stack" where
  "example_breakdown stk version = stk"

text \<open>What the examples read of a tree behind a pointer: its reference count and its extra flag.\<close>

definition count_and_extra :: "Tree option \<Rightarrow> (u32 \<times> bool) option" where
  "count_and_extra t = map_option (\<lambda>t. (ref_count (data t), extra (data t))) t"

text \<open>
  A cursor at byte 10 on an error leaf of the previous tree, with one leaf after it, and
  the position of the versions of the examples.
\<close>

definition example_error_cursor :: ReusableNode where
  "example_error_cursor =
    \<lparr>tree = Some (example_node (- 1) 1 []),
     following = [example_node 7 0 []],
     byte_index = 10,
     last_external_token = None\<rparr>"

definition example_position :: Length where
  "example_position = \<lparr>bytes = 10, chars = 10, extent_row = 0, extent_column = 10\<rparr>"

text \<open>The parser of the examples in state 1 with a second version beside the first.\<close>

definition example_parser_two_versions :: "unit Parser" where
  "example_parser_two_versions =
    (example_parser 1 2)\<lparr>stack := [example_head 1 1 0, example_head 2 1 0]\<rparr>"

text \<open>The position one byte and one character further on.\<close>

definition one_byte_on :: "Length \<Rightarrow> Length" where
  "one_byte_on p = p\<lparr>bytes := bytes p + 1, chars := chars p + 1\<rparr>"

text \<open>
  A second language for the examples, in which external tokens are valid in every state,
  the error state 0 included. Its external scanner finds nothing at byte 0 and a token of
  one byte anywhere else, and its internal lexer recognises nothing.
\<close>

definition example_scanning_language :: "unit externals" where
  "example_scanning_language =
    example_language
      \<lparr>lex_modes := (\<lambda>s. \<lparr>lex_state = s, external_lex_state = 1\<rparr>),
       external_scanner_scan :=
         (\<lambda>valid lx.
            if bytes (current_position lx) = 0 then (False, lx)
            else (True, lx\<lparr>current_position := one_byte_on (current_position lx),
                            token_end_position := one_byte_on (current_position lx),
                            result_symbol := 0\<rparr>)),
       lex_fn := (\<lambda>s lx. (False, lx)),
       lexer_advance := (\<lambda>lx. lx\<lparr>current_position := one_byte_on (current_position lx)\<rparr>)\<rparr>"

text \<open>
  The variables of \<^verbatim>\<open>parser__lex\<close> in that language after one iteration of the loop from
  byte 0 in the error state: the byte at 0 has been skipped and the lexer is at byte 1.
\<close>

definition example_skipped_vars :: "unit lex_vars" where
  "example_skipped_vars =
    \<lparr>self_lexer = example_lexer\<lparr>current_position := one_byte_on zero_length\<rparr>,
     lex_mode = \<lparr>lex_state = 0, external_lex_state = 1\<rparr>,
     valid_external_tokens = Some [True],
     found_external_token = False,
     skipped_error = True,
     error_mode = True,
     first_error_character = 97,
     error_start_position = zero_length,
     error_end_position = one_byte_on zero_length,
     last_byte_scanned = 0\<rparr>"

section \<open>Properties of the subtree pool\<close>

text \<open>
  The masks of the slots 0 to 31: below slot 31 the mask is the bit of the slot; the mask
  of slot 31 has the bits 31 to 63, the sign of the \<^verbatim>\<open>int\<close> extended.
\<close>

lemma slot_mask_low: "n < 31 \<Longrightarrow> slot_mask n = 2 ^ n"
proof -
  assume n: "n < 31"
  then have "n mod 32 = n" by simp
  then have "slot_mask n = scast (push_bit n (1 :: u32))" by (simp add: slot_mask_def)
  also have "\<dots> = 2 ^ n"
    using n by (intro bit_word_eqI) (auto simp add: bit_simps)
  finally show ?thesis .
qed

lemma slot_mask_31: "slot_mask 31 = 0xFFFFFFFF80000000"
  by (simp add: slot_mask_def)

text \<open>A slab whose first \<open>n\<close> slots are taken has the bitmap \<open>mask n\<close>.\<close>

lemma mask_and_bit_free:
  "n \<le> j \<Longrightarrow> (mask n :: u64) AND 2 ^ j = 0"
  by (rule bit_word_eqI) (auto simp add: bit_simps)

lemma mask_and_bit_taken:
  assumes "j < n" "j < 64"
  shows "(mask n :: u64) AND 2 ^ j \<noteq> 0"
proof
  assume "(mask n :: u64) AND 2 ^ j = 0"
  then have "\<not> bit ((mask n :: u64) AND 2 ^ j) j" by simp
  with assms show False by (simp add: bit_simps)
qed

lemma mask_not_full:
  assumes "n < 64"
  shows "(mask n :: u64) \<noteq> - 1"
proof
  assume "(mask n :: u64) = - 1"
  then have "bit (mask n :: u64) 63" by simp
  with assms show False by (simp add: bit_simps)
qed

lemma mask_or_bit: "(mask n :: u64) OR 2 ^ n = mask (Suc n)"
  by (rule bit_word_eqI) (auto simp add: bit_simps less_Suc_eq)

lemma slab_allocate_skip:
  "j \<le> n \<Longrightarrow> n \<le> 31 \<Longrightarrow>
     slab_allocate_from j \<lparr>bitmap = mask n, trees = a\<rparr>
       = slab_allocate_from n \<lparr>bitmap = mask n, trees = a\<rparr>"
proof (induction "n - j" arbitrary: j)
  case 0
  then show ?case by simp
next
  case (Suc d)
  then have jn: "j < n" "j < 31" "j < 64" by simp_all
  have "slab_allocate_from j \<lparr>bitmap = mask n, trees = a\<rparr>
        = slab_allocate_from (j + 1) \<lparr>bitmap = mask n, trees = a\<rparr>"
    using jn mask_and_bit_taken [OF jn(1) jn(3)]
    by (subst slab_allocate_from.simps) (simp add: SLAB_SIZE_def slot_mask_low Let_def)
  also have "\<dots> = slab_allocate_from n \<lparr>bitmap = mask n, trees = a\<rparr>"
    using Suc.hyps(2) Suc.prems by (intro Suc.hyps(1)) simp_all
  finally show ?case .
qed

lemma slab_allocate_low:
  assumes "n < 31"
  shows "tree_pool_slab__allocate \<lparr>bitmap = mask n, trees = a\<rparr>
           = (Some (a, n), \<lparr>bitmap = mask (Suc n), trees = a\<rparr>)"
proof -
  have "tree_pool_slab__allocate \<lparr>bitmap = mask n, trees = a\<rparr>
        = slab_allocate_from n \<lparr>bitmap = mask n, trees = a\<rparr>"
    using assms slab_allocate_skip [of 0 n a] by (simp add: tree_pool_slab__allocate_def)
  also have "\<dots> = (Some (a, n), \<lparr>bitmap = mask (Suc n), trees = a\<rparr>)"
    using assms
    by (subst slab_allocate_from.simps)
       (simp add: SLAB_SIZE_def slot_mask_low mask_and_bit_free mask_or_bit Let_def)
  finally show ?thesis .
qed

lemma slab_allocate_31:
  "tree_pool_slab__allocate \<lparr>bitmap = mask 31, trees = a\<rparr>
     = (Some (a, 31), \<lparr>bitmap = FULL_BITMAP, trees = a\<rparr>)"
proof -
  have "tree_pool_slab__allocate \<lparr>bitmap = mask 31, trees = a\<rparr>
        = slab_allocate_from 31 \<lparr>bitmap = mask 31, trees = a\<rparr>"
    using slab_allocate_skip [of 0 31 a] by (simp add: tree_pool_slab__allocate_def)
  also have "\<dots> = (Some (a, 31), \<lparr>bitmap = FULL_BITMAP, trees = a\<rparr>)"
    by (subst slab_allocate_from.simps)
       (simp add: SLAB_SIZE_def slot_mask_31 FULL_BITMAP_def mask_numeral Let_def)
  finally show ?thesis .
qed

lemma pool_allocate_low:
  assumes "n < 31"
  shows "ts_tree_pool_allocate \<lparr>slabs = [\<lparr>bitmap = mask n, trees = 0\<rparr>],
                                first_available_slab_index = 0\<rparr>
           = (Some (0, n), \<lparr>slabs = [\<lparr>bitmap = mask (Suc n), trees = 0\<rparr>],
                             first_available_slab_index = 0\<rparr>)"
  using assms mask_not_full [of "Suc n"]
  by (simp add: ts_tree_pool_allocate_def slab_allocate_low tree_pool_slab__is_full_def
      FULL_BITMAP_def)

lemma allocate_many_low:
  "k + n \<le> 31 \<Longrightarrow>
     allocate_many n \<lparr>slabs = [\<lparr>bitmap = mask k, trees = 0\<rparr>], first_available_slab_index = 0\<rparr>
       = \<lparr>slabs = [\<lparr>bitmap = mask (k + n), trees = 0\<rparr>], first_available_slab_index = 0\<rparr>"
  by (induction n arbitrary: k) (simp_all add: pool_allocate_low)

lemma pool_init_mask:
  "ts_tree_pool_init = \<lparr>slabs = [\<lparr>bitmap = mask 0, trees = 0\<rparr>], first_available_slab_index = 0\<rparr>"
  by (simp add: ts_tree_pool_init_def ts_tree_pool__add_slab_def)

lemma pool_allocate_31:
  "ts_tree_pool_allocate \<lparr>slabs = [\<lparr>bitmap = mask 31, trees = 0\<rparr>],
                                first_available_slab_index = 0\<rparr>
     = (Some (0, 31), \<lparr>slabs = [\<lparr>bitmap = FULL_BITMAP, trees = 0\<rparr>, \<lparr>bitmap = 0, trees = 1\<rparr>],
                        first_available_slab_index = 1\<rparr>)"
  by (simp add: ts_tree_pool_allocate_def slab_allocate_31 tree_pool_slab__is_full_def
      first_slab_with_room.simps ts_tree_pool__add_slab_def)

lemma allocate_many_snoc:
  "allocate_many (Suc n) self = snd (ts_tree_pool_allocate (allocate_many n self))"
  by (induction n arbitrary: self) simp_all

text \<open>
  C10. Up to slot 30 an allocation takes the first free slot and sets its bit. The
  allocation of slot 31 marks the slots 31 to 63 at once: after 31 allocations from a new
  pool the bitmap of the slab is \<open>0x7FFFFFFF\<close>, the next allocation hands out slot 31 and
  leaves the bitmap full, so that the slab counts as full after 32 of its 64 slots have
  been handed out and the pool adds a second slab. Freeing slot 31 clears the bits 31 to
  63.
\<close>

theorem tree_pool_slot_31_fills_slab:
  "map slot_mask [0, 30, 31] = [1, 0x40000000, 0xFFFFFFFF80000000]
   \<and> slot_clear_mask 31 = 0x7FFFFFFF
   \<and> allocate_many 31 ts_tree_pool_init
       = \<lparr>slabs = [\<lparr>bitmap = 0x7FFFFFFF, trees = 0\<rparr>], first_available_slab_index = 0\<rparr>
   \<and> tree_pool_slab__allocate \<lparr>bitmap = 0x7FFFFFFF, trees = 0\<rparr>
       = (Some (0, 31), \<lparr>bitmap = FULL_BITMAP, trees = 0\<rparr>)
   \<and> allocate_many 32 ts_tree_pool_init
       = \<lparr>slabs = [\<lparr>bitmap = FULL_BITMAP, trees = 0\<rparr>, \<lparr>bitmap = 0, trees = 1\<rparr>],
          first_available_slab_index = 1\<rparr>"
proof -
  have m31: "(mask 31 :: u64) = 0x7FFFFFFF" by (simp add: mask_numeral)
  have masks: "map slot_mask [0, 30, 31] = [1, 0x40000000, 0xFFFFFFFF80000000]"
    by (simp add: slot_mask_def)
  have clear_masks: "slot_clear_mask 31 = 0x7FFFFFFF"
    by (simp add: slot_clear_mask_def)
  have a31: "allocate_many 31 ts_tree_pool_init
       = \<lparr>slabs = [\<lparr>bitmap = mask 31, trees = 0\<rparr>], first_available_slab_index = 0\<rparr>"
    using allocate_many_low [of 0 31] by (simp add: pool_init_mask)
  have "allocate_many 32 ts_tree_pool_init = allocate_many (Suc 31) ts_tree_pool_init"
    by simp
  also have "\<dots> = snd (ts_tree_pool_allocate (allocate_many 31 ts_tree_pool_init))"
    by (rule allocate_many_snoc)
  also have "\<dots> = \<lparr>slabs = [\<lparr>bitmap = FULL_BITMAP, trees = 0\<rparr>, \<lparr>bitmap = 0, trees = 1\<rparr>],
          first_available_slab_index = 1\<rparr>"
    by (simp only: a31 pool_allocate_31 snd_conv)
  finally have a32: "allocate_many 32 ts_tree_pool_init
       = \<lparr>slabs = [\<lparr>bitmap = FULL_BITMAP, trees = 0\<rparr>, \<lparr>bitmap = 0, trees = 1\<rparr>],
          first_available_slab_index = 1\<rparr>" .
  from masks clear_masks a31 a32 slab_allocate_31 [of 0] show ?thesis
    by (simp only: m31)
qed


section \<open>Properties of the version comparison\<close>

lemma unat_cost_product:
  fixes x y p :: u32
  assumes "y < x"
  shows "unat ((x - y) * (1 + p)) = ((unat x - unat y) * (1 + unat p)) mod 2 ^ 32"
proof -
  from assms have le: "y \<le> x" by simp
  have sub: "unat (x - y) = unat x - unat y"
    using le by (simp add: unat_sub)
  have "unat ((x - y) * (1 + p)) = (unat (x - y) * unat (1 + p)) mod 2 ^ 32"
    by (simp add: unat_word_ariths)
  also have "\<dots> = (unat (x - y) * ((1 + unat p) mod 2 ^ 32)) mod 2 ^ 32"
    by (simp add: unat_word_ariths)
  also have "\<dots> = (unat (x - y) * (1 + unat p)) mod 2 ^ 32"
    by (simp add: mod_mult_right_eq)
  finally show ?thesis by (simp add: sub)
qed

text \<open>
  C6, as the code has it. When exactly one version is in error the other one wins, Take
  on a strictly lower cost and Prefer otherwise; with the same error status the strictly
  cheaper version wins, Take when the product, computed in 32-bit unsigned arithmetic
  (modulo \<open>2 ^ 32\<close>), exceeds \<^verbatim>\<open>MAX_COST_DIFFERENCE\<close> and Prefer otherwise; with the same
  error status and equal costs the verdict is None.
\<close>

theorem compare_versions_verdict:
  "parser__compare_versions h a b =
    (if is_in_error a \<noteq> is_in_error b then
       (if \<not> is_in_error a
        then (if unat (cost a) < unat (cost b)
              then ErrorComparisonTakeLeft else ErrorComparisonPreferLeft)
        else (if unat (cost b) < unat (cost a)
              then ErrorComparisonTakeRight else ErrorComparisonPreferRight))
     else if unat (cost a) < unat (cost b) then
       (if ((unat (cost b) - unat (cost a)) * (1 + unat (push_count a))) mod 2 ^ 32
             > unat (MAX_COST_DIFFERENCE h)
        then ErrorComparisonTakeLeft else ErrorComparisonPreferLeft)
     else if unat (cost b) < unat (cost a) then
       (if ((unat (cost a) - unat (cost b)) * (1 + unat (push_count b))) mod 2 ^ 32
             > unat (MAX_COST_DIFFERENCE h)
        then ErrorComparisonTakeRight else ErrorComparisonPreferRight)
     else ErrorComparisonNone)"
proof -
  have lt: "\<And>x y :: u32. (x < y) = (unat x < unat y)"
    by (simp add: word_less_nat_alt)
  have prod: "\<And>x y p m :: u32. y < x \<Longrightarrow>
      (m < (x - y) * (1 + p)) = (unat m < ((unat x - unat y) * (1 + unat p)) mod 2 ^ 32)"
    by (simp add: word_less_nat_alt unat_cost_product)
  show ?thesis
  proof (cases "cost a < cost b")
    case True
    then have "\<not> cost b < cost a" by simp
    with True show ?thesis
      using prod [OF True, of "MAX_COST_DIFFERENCE h" "push_count a"]
      by (auto simp add: parser__compare_versions_def lt)
  next
    case False
    show ?thesis
    proof (cases "cost b < cost a")
      case True
      with False show ?thesis
        using prod [OF True, of "MAX_COST_DIFFERENCE h" "push_count b"]
        by (auto simp add: parser__compare_versions_def lt)
    next
      case F2: False
      with False show ?thesis
        by (auto simp add: parser__compare_versions_def lt)
    qed
  qed
qed

text \<open>
  The claim's product over the naturals is refuted where the 32-bit product wraps: with
  the costs \<open>0\<close> and \<open>2 ^ 31\<close> and one push on the cheaper version the code computes
  \<open>2 ^ 31 * 2 = 0\<close> and answers PreferLeft, where the product \<open>2 ^ 32\<close> of the claim
  exceeds \<^verbatim>\<open>MAX_COST_DIFFERENCE\<close> and asks for TakeLeft.
\<close>

theorem compare_versions_counterexample:
  "parser__compare_versions example_costs
      \<lparr>cost = 0, push_count = 1, is_in_error = False\<rparr>
      \<lparr>cost = 0x80000000, push_count = 0, is_in_error = False\<rparr>
    = ErrorComparisonPreferLeft
   \<and> compare_versions_spec (unat (MAX_COST_DIFFERENCE example_costs))
      \<lparr>cost = 0, push_count = 1, is_in_error = False\<rparr>
      \<lparr>cost = 0x80000000, push_count = 0, is_in_error = False\<rparr>
    = ErrorComparisonTakeLeft"
  by (simp add: parser__compare_versions_def compare_versions_spec_def MAX_COST_DIFFERENCE_def
      example_costs_def)

section \<open>Properties of the choice between two trees\<close>

lemma compare_children_refl:
  "(\<And>x. x \<in> set ts \<Longrightarrow> ts_tree_compare x x = 0) \<Longrightarrow> compare_children ts ts = 0"
  by (induction ts) simp_all

lemma ts_tree_compare_refl: "ts_tree_compare t t = 0"
proof (induction t)
  case (Tree d ts)
  then have "compare_children ts ts = 0"
    by (intro compare_children_refl) simp
  then show ?case by simp
qed

text \<open>
  C2, as the code has it, for two trees that are there: the smaller error cost wins; else
  the larger dynamic precedence wins; else, when the common error cost is not zero, the
  second tree is selected without a comparison; else the structural comparison decides,
  and the first tree is kept unless the comparison says 1 (so also on equality).
\<close>

theorem select_tree_choice:
  "parser__select_tree (Some a) (Some b) =
    (if unat (error_cost (data b)) < unat (error_cost (data a)) then True
     else if unat (error_cost (data a)) < unat (error_cost (data b)) then False
     else if sint (dynamic_precedence (data a)) < sint (dynamic_precedence (data b)) then True
     else if sint (dynamic_precedence (data b)) < sint (dynamic_precedence (data a)) then False
     else if 0 < unat (error_cost (data a)) then True
     else ts_tree_compare a b = 1)"
  by (simp add: parser__select_tree_def word_less_nat_alt word_sless_alt Let_def)

text \<open>
  Two leaves with the error cost 1 and the same precedence, the first with the smaller
  symbol: the comparison is for the first, and the code selects the second. It selects
  the second as well when the two leaves are equal, where the first was to be kept.
\<close>

theorem select_tree_counterexample:
  "parser__select_tree (Some (example_leaf 1 1 0)) (Some (example_leaf 2 1 0))
   \<and> ts_tree_compare (example_leaf 1 1 0) (example_leaf 2 1 0) = - 1
   \<and> \<not> select_tree_spec (example_leaf 1 1 0) (example_leaf 2 1 0)
   \<and> parser__select_tree (Some (example_leaf 1 1 0)) (Some (example_leaf 1 1 0))
   \<and> ts_tree_compare (example_leaf 1 1 0) (example_leaf 1 1 0) = 0
   \<and> \<not> select_tree_spec (example_leaf 1 1 0) (example_leaf 1 1 0)"
  by (simp add: parser__select_tree_def select_tree_spec_def example_leaf_def)

section \<open>Properties of condensing the stack\<close>

lemma condense_truncate_bound:
  "ts_stack_version_count (condense_truncate self) \<le> MAX_VERSION_COUNT"
proof (induction self rule: condense_truncate.induct)
  case (1 self)
  show ?case
  proof (cases "ts_stack_version_count self > MAX_VERSION_COUNT")
    case True
    with "1.IH" show ?thesis by (subst condense_truncate.simps) simp
  next
    case False
    then show ?thesis by (subst condense_truncate.simps) simp
  qed
qed

text \<open>
  C7. \<^verbatim>\<open>parser__condense_stack\<close> returns for every stack, and the stack it leaves has at
  most \<^verbatim>\<open>MAX_VERSION_COUNT\<close> versions.
\<close>

theorem condense_stack_version_bound:
  "ts_stack_version_count (snd (parser__condense_stack h finished_tree self)) \<le> MAX_VERSION_COUNT"
  by (simp add: parser__condense_stack_def Let_def split_beta condense_truncate_bound)

lemma live_drop_halted:
  "i < length self \<Longrightarrow> is_halted (self ! i) \<Longrightarrow>
     live_versions (drop i self) = live_versions (drop (Suc i) self)"
  by (simp add: live_versions_def Cons_nth_drop_Suc [symmetric])

lemma live_drop_live:
  "i < length self \<Longrightarrow> \<not> is_halted (self ! i) \<Longrightarrow>
     live_versions (drop i self) = self ! i # live_versions (drop (Suc i) self)"
  by (simp add: live_versions_def Cons_nth_drop_Suc [symmetric])

text \<open>
  The outer loop folds the cost and the error state of every version that is not halted
  into \<^verbatim>\<open>min_error_cost\<close> and \<^verbatim>\<open>all_versions_have_error\<close>, whatever the inner loop removes.
\<close>

lemma condense_outer_accumulates:
  "snd (condense_outer h self i m a) =
     (fold (\<lambda>v m. if node_error_cost (node v) < m then node_error_cost (node v) else m)
        (live_versions (drop i self)) m,
      a \<and> list_all (head_in_error h) (live_versions (drop i self)))"
proof (induction h self i m a rule: condense_outer.induct)
  case (1 h self i m a)
  show ?case
  proof (cases "i < length self")
    case False
    then show ?thesis
      by (subst condense_outer.simps) (simp add: ts_stack_version_count_def live_versions_def)
  next
    case True
    note il = True
    then have ic: "i < ts_stack_version_count self" by (simp add: ts_stack_version_count_def)
    show ?thesis
    proof (cases "ts_stack_is_halted self i")
      case True
      then have hl: "is_halted (self ! i)" by (simp add: ts_stack_is_halted_def)
      have step: "snd (condense_outer h self i m a) =
            snd (condense_outer h (ts_stack_remove_version self i) i m a)"
        using ic True by (subst condense_outer.simps) simp
      have lv: "live_versions (drop i (ts_stack_remove_version self i)) =
            live_versions (drop i self)"
        using rm_drop_at [OF il] live_drop_halted [OF il hl] by simp
      show ?thesis
        by (simp only: step "1.IH"(1) [OF ic True] lv)
    next
      case False
      then have nh: "\<not> is_halted (self ! i)" by (simp add: ts_stack_is_halted_def)
      obtain self' i' where inner: "condense_inner h self (version_status h self i) i 0 = (self', i')"
        by (cases "condense_inner h self (version_status h self i) i 0")
      let ?st = "version_status h self i"
      let ?a = "if \<not> is_in_error ?st then False else a"
      let ?m = "if cost ?st < m then cost ?st else m"
      have dr: "drop (Suc i') self' = drop (Suc i) self"
        using condense_inner_shape [OF _ il inner] by simp
      have step: "snd (condense_outer h self i m a) = snd (condense_outer h self' (i' + 1) ?m ?a)"
        using ic False inner by (subst condense_outer.simps) (simp add: Let_def)
      have ih: "snd (condense_outer h self' (i' + 1) ?m ?a) =
         (fold (\<lambda>v m. if node_error_cost (node v) < m then node_error_cost (node v) else m)
            (live_versions (drop (i' + 1) self')) ?m,
          ?a \<and> list_all (head_in_error h) (live_versions (drop (i' + 1) self')))"
        by (rule "1.IH"(2) [OF ic False refl refl refl inner [symmetric] refl])
      have lv: "live_versions (drop i self) = self ! i # live_versions (drop (i' + 1) self')"
        using live_drop_live [OF il nh] dr by simp
      have st: "cost ?st = node_error_cost (node (self ! i))"
        "is_in_error ?st = head_in_error h (self ! i)"
        by (simp_all add: version_status_def ts_stack_error_cost_def ts_stack_top_state_def
            head_in_error_def)
      show ?thesis
        by (simp only: step ih lv) (simp add: st)
    qed
  qed
qed

lemma below_fold_min:
  fixes c m :: u32
  shows "c < fold (\<lambda>v m. if node_error_cost (node v) < m then node_error_cost (node v) else m) vs m
     \<longleftrightarrow> c < m \<and> list_all (\<lambda>v. c < node_error_cost (node v)) vs"
proof (induction vs arbitrary: m)
  case Nil
  show ?case by simp
next
  case (Cons v vs)
  have "(if node_error_cost (node v) < m then node_error_cost (node v) else m)
        = min (node_error_cost (node v)) m"
    by (simp add: min_def le_less)
  then show ?case
    using Cons.IH [of "min (node_error_cost (node v)) m"]
    by (simp only: fold_simps list.pred_inject min_less_iff_conj) blast
qed

text \<open>A version remains after the pass exactly when some version was not halted before it.\<close>

lemma live_versions_Nil [simp]: "live_versions [] = []"
  by (simp add: live_versions_def)

lemma condense_outer_nonempty:
  "i \<le> length self \<Longrightarrow>
     (fst (condense_outer h self i m a) \<noteq> []) = (0 < i \<or> live_versions (drop i self) \<noteq> [])"
proof (induction h self i m a rule: condense_outer.induct)
  case (1 h self i m a)
  show ?case
  proof (cases "i < length self")
    case False
    with "1.prems" have "i = length self" by simp
    then show ?thesis
      by (subst condense_outer.simps) (auto simp add: ts_stack_version_count_def)
  next
    case True
    note il = True
    then have ic: "i < ts_stack_version_count self" by (simp add: ts_stack_version_count_def)
    show ?thesis
    proof (cases "ts_stack_is_halted self i")
      case True
      then have hl: "is_halted (self ! i)" by (simp add: ts_stack_is_halted_def)
      have step: "fst (condense_outer h self i m a) =
            fst (condense_outer h (ts_stack_remove_version self i) i m a)"
        using ic True by (subst condense_outer.simps) simp
      have le: "i \<le> length (ts_stack_remove_version self i)"
        using il by (simp add: rm_length)
      have lv: "live_versions (drop i (ts_stack_remove_version self i)) =
            live_versions (drop i self)"
        using rm_drop_at [OF il] live_drop_halted [OF il hl] by simp
      show ?thesis
        by (simp only: step "1.IH"(1) [OF ic True le] lv)
    next
      case False
      then have nh: "\<not> is_halted (self ! i)" by (simp add: ts_stack_is_halted_def)
      obtain self' i' where inner: "condense_inner h self (version_status h self i) i 0 = (self', i')"
        by (cases "condense_inner h self (version_status h self i) i 0")
      let ?st = "version_status h self i"
      let ?a = "if \<not> is_in_error ?st then False else a"
      let ?m = "if cost ?st < m then cost ?st else m"
      have le: "i' + 1 \<le> length self'"
        using condense_inner_shape [OF _ il inner] by simp
      have step: "fst (condense_outer h self i m a) = fst (condense_outer h self' (i' + 1) ?m ?a)"
        using ic False inner by (subst condense_outer.simps) (simp add: Let_def)
      have ih: "(fst (condense_outer h self' (i' + 1) ?m ?a) \<noteq> []) =
          (0 < i' + 1 \<or> live_versions (drop (i' + 1) self') \<noteq> [])"
        by (rule "1.IH"(2) [OF ic False refl refl refl inner [symmetric] refl le])
      have lv: "live_versions (drop i self) \<noteq> []"
        using live_drop_live [OF il nh] by simp
      show ?thesis
        by (simp only: step ih lv) simp
    qed
  qed
qed

lemma condense_truncate_nonempty:
  "(condense_truncate self \<noteq> []) = (self \<noteq> [])"
proof (induction self rule: condense_truncate.induct)
  case (1 self)
  show ?case
  proof (cases "ts_stack_version_count self > MAX_VERSION_COUNT")
    case True
    then have "ts_stack_remove_version self MAX_VERSION_COUNT \<noteq> []" "self \<noteq> []"
      by (auto simp add: ts_stack_version_count_def ts_stack_remove_version_def
          MAX_VERSION_COUNT_def)
    with True "1.IH" show ?thesis by (subst condense_truncate.simps) simp
  next
    case False
    then show ?thesis by (subst condense_truncate.simps) simp
  qed
qed

lemma condense_stack_remaining:
  "(0 < ts_stack_version_count (snd (parser__condense_stack h finished_tree self)))
     = (live_versions self \<noteq> [])"
  using condense_outer_nonempty [of 0 self h UINT_MAX True]
  by (simp add: parser__condense_stack_def Let_def split_beta ts_stack_version_count_def
      condense_truncate_nonempty)

lemma status_in_error:
  "is_in_error (version_status h self v) = head_in_error h (self ! v)"
  by (simp add: version_status_def ts_stack_top_state_def head_in_error_def)

lemma compare_left_not_in_error:
  "\<not> is_in_error b \<Longrightarrow>
     parser__compare_versions h a b \<in>
       {ErrorComparisonTakeLeft, ErrorComparisonPreferLeft, ErrorComparisonNone} \<Longrightarrow>
     \<not> is_in_error a"
  by (auto simp add: parser__compare_versions_def split: if_splits)

lemma compare_right_in_error:
  "\<not> is_in_error a \<Longrightarrow> is_in_error b \<Longrightarrow>
     parser__compare_versions h a b \<in> {ErrorComparisonTakeLeft, ErrorComparisonPreferLeft}"
  by (auto simp add: parser__compare_versions_def)

lemma rm_nth_below: "k < v \<Longrightarrow> v < length self \<Longrightarrow> ts_stack_remove_version self v ! k = self ! k"
  by (simp add: ts_stack_remove_version_def nth_append)

lemma rm_nth_above:
  "v \<le> k \<Longrightarrow> Suc k < length self \<Longrightarrow> ts_stack_remove_version self v ! k = self ! Suc k"
  by (simp add: ts_stack_remove_version_def nth_append min_def)

lemma condense_inner_unfold:
  "j < i \<Longrightarrow> condense_inner h self status_i i j =
      (case parser__compare_versions h (version_status h self j) status_i of
          ErrorComparisonTakeLeft \<Rightarrow> (ts_stack_remove_version self i, i - 1)
        | ErrorComparisonPreferLeft \<Rightarrow>
            if ts_stack_can_merge self j i then (ts_stack_remove_version self i, i - 1)
            else condense_inner h self status_i i (j + 1)
        | ErrorComparisonNone \<Rightarrow>
            if ts_stack_can_merge self j i then (ts_stack_force_merge self j i, i - 1)
            else condense_inner h self status_i i (j + 1)
        | ErrorComparisonPreferRight \<Rightarrow>
            if ts_stack_can_merge self j i
            then condense_inner h (ts_stack_remove_version self j) status_i (i - 1) j
            else (ts_stack_swap_versions self i j, i)
        | ErrorComparisonTakeRight \<Rightarrow>
            condense_inner h (ts_stack_remove_version self j) status_i (i - 1) j)"
  by (subst condense_inner.simps) (simp add: Let_def)

lemma condense_inner_done:
  "\<not> j < i \<Longrightarrow> condense_inner h self status_i i j = (self, i)"
  by (subst condense_inner.simps) simp

text \<open>
  Once a version outside the error state has been visited, the version at index 0 is
  outside the error state: such a version is exchanged with or removes every version in
  the error state that it meets, and a version in the error state never displaces one
  outside it.
\<close>

lemma condense_inner_front_of_good:
  "j \<le> i \<Longrightarrow> i < length self \<Longrightarrow> \<not> is_in_error status_i \<Longrightarrow>
   \<not> head_in_error h (self ! i) \<Longrightarrow> (\<And>k. k < j \<Longrightarrow> \<not> head_in_error h (self ! k)) \<Longrightarrow>
   condense_inner h self status_i i j = (self', i') \<Longrightarrow>
   \<not> head_in_error h (self' ! 0)"
proof (induction h self status_i i j arbitrary: self' i' rule: condense_inner.induct)
  case (1 h self status_i i j)
  show ?case
  proof (cases "j < i")
    case False
    with "1.prems"(1) have "j = i" by simp
    moreover from False "1.prems"(6) have "self' = self"
      by (simp add: condense_inner_done)
    ultimately show ?thesis
      using "1.prems"(4,5) by (cases "i = 0") simp_all
  next
    case True
    note ji = True
    let ?c = "parser__compare_versions h (version_status h self j) status_i"
    let ?m = "ts_stack_can_merge self j i"
    note eq = "1.prems"(6) [unfolded condense_inner_unfold [OF ji]]
    have jl: "j < length self" using ji "1.prems"(2) by simp
    have first: "\<not> head_in_error h (self ! j) \<Longrightarrow> \<not> head_in_error h (self ! 0)"
      using "1.prems"(5) by (cases "j = 0") simp_all
    have good_j: "?c \<in> {ErrorComparisonTakeLeft, ErrorComparisonPreferLeft, ErrorComparisonNone}
        \<Longrightarrow> \<not> head_in_error h (self ! j)"
      using compare_left_not_in_error [OF "1.prems"(3), of h "version_status h self j"]
      by (simp add: status_in_error)
    have removed: "?c \<in> {ErrorComparisonTakeLeft, ErrorComparisonPreferLeft, ErrorComparisonNone}
        \<Longrightarrow> (ts_stack_remove_version self i, i - 1) = (self', i') \<Longrightarrow> ?thesis"
      using first good_j ji "1.prems"(2) by (auto simp add: rm_nth_below)
    have swapped: "(ts_stack_swap_versions self i j, i) = (self', i') \<Longrightarrow> ?thesis"
      using ji jl "1.prems"(2,4,5)
      by (cases "j = 0") (auto simp add: ts_stack_swap_versions_def)
    have next_pre: "?c \<in> {ErrorComparisonPreferLeft, ErrorComparisonNone} \<Longrightarrow>
        (\<And>k. k < j + 1 \<Longrightarrow> \<not> head_in_error h (self ! k))"
    proof -
      fix k
      assume c: "?c \<in> {ErrorComparisonPreferLeft, ErrorComparisonNone}" and k: "k < j + 1"
      then have "\<not> head_in_error h (self ! j)" using good_j by auto
      with k "1.prems"(5) show "\<not> head_in_error h (self ! k)"
        by (cases "k = j") simp_all
    qed
    have below_pre:
      "j \<le> i - 1"
      "i - 1 < length (ts_stack_remove_version self j)"
      "\<not> head_in_error h (ts_stack_remove_version self j ! (i - 1))"
      "\<And>k. k < j \<Longrightarrow> \<not> head_in_error h (ts_stack_remove_version self j ! k)"
      using ji jl "1.prems"(2,4,5) by (simp_all add: rm_length rm_nth_below rm_nth_above)
    show ?thesis
    proof (cases ?c)
      case c: ErrorComparisonTakeLeft
      with eq have "(ts_stack_remove_version self i, i - 1) = (self', i')" by auto
      with c show ?thesis by (intro removed) simp_all
    next
      case c: ErrorComparisonPreferLeft
      show ?thesis
      proof (cases ?m)
        case True
        with eq c have "(ts_stack_remove_version self i, i - 1) = (self', i')" by auto
        with c show ?thesis by (intro removed) simp_all
      next
        case False
        with eq c have r: "condense_inner h self status_i i (j + 1) = (self', i')" by simp
        show ?thesis
          using ji "1.prems"(2,3,4) next_pre c
          by (intro "1.IH"(1) [OF ji refl refl c False _ _ _ _ _ r]) simp_all
      qed
    next
      case c: ErrorComparisonNone
      show ?thesis
      proof (cases ?m)
        case True
        with eq c have "(ts_stack_remove_version self i, i - 1) = (self', i')"
          by (auto simp add: ts_stack_force_merge_def)
        with c show ?thesis by (intro removed) simp_all
      next
        case False
        with eq c have r: "condense_inner h self status_i i (j + 1) = (self', i')" by simp
        show ?thesis
          using ji "1.prems"(2,3,4) next_pre c
          by (intro "1.IH"(2) [OF ji refl refl c False _ _ _ _ _ r]) simp_all
      qed
    next
      case c: ErrorComparisonPreferRight
      show ?thesis
      proof (cases ?m)
        case True
        with eq c have r:
          "condense_inner h (ts_stack_remove_version self j) status_i (i - 1) j = (self', i')"
          by simp
        show ?thesis
          using below_pre "1.prems"(3)
          by (intro "1.IH"(3) [OF ji refl refl c True _ _ _ _ _ r]) simp_all
      next
        case False
        with eq c have "(ts_stack_swap_versions self i j, i) = (self', i')" by auto
        then show ?thesis by (rule swapped)
      qed
    next
      case c: ErrorComparisonTakeRight
      with eq have r:
        "condense_inner h (ts_stack_remove_version self j) status_i (i - 1) j = (self', i')"
        by simp
      show ?thesis
        using below_pre "1.prems"(3)
        by (intro "1.IH"(4) [OF ji refl refl c _ _ _ _ _ r]) simp_all
    qed
  qed
qed

lemma condense_inner_keeps_front:
  "j \<le> i \<Longrightarrow> i < length self \<Longrightarrow> is_in_error status_i \<Longrightarrow> 0 < i \<Longrightarrow>
   \<not> head_in_error h (self ! 0) \<Longrightarrow>
   condense_inner h self status_i i j = (self', i') \<Longrightarrow>
   \<not> head_in_error h (self' ! 0)"
proof (induction h self status_i i j arbitrary: self' i' rule: condense_inner.induct)
  case (1 h self status_i i j)
  show ?case
  proof (cases "j < i")
    case False
    with "1.prems"(6) have "self' = self" by (simp add: condense_inner_done)
    with "1.prems"(5) show ?thesis by simp
  next
    case True
    note ji = True
    let ?c = "parser__compare_versions h (version_status h self j) status_i"
    let ?m = "ts_stack_can_merge self j i"
    note eq = "1.prems"(6) [unfolded condense_inner_unfold [OF ji]]
    have jl: "j < length self" using ji "1.prems"(2) by simp
    have removed: "(ts_stack_remove_version self i, i - 1) = (self', i') \<Longrightarrow> ?thesis"
      using "1.prems"(2,4,5) by (auto simp add: rm_nth_below)
    have j_pos: "?c \<in> {ErrorComparisonPreferRight, ErrorComparisonTakeRight} \<Longrightarrow> 0 < j"
    proof (rule ccontr)
      assume c: "?c \<in> {ErrorComparisonPreferRight, ErrorComparisonTakeRight}" and "\<not> 0 < j"
      then have "\<not> is_in_error (version_status h self j)"
        using "1.prems"(5) by (simp add: status_in_error)
      from compare_right_in_error [OF this "1.prems"(3), of h] c show False by auto
    qed
    have swapped: "0 < j \<Longrightarrow> (ts_stack_swap_versions self i j, i) = (self', i') \<Longrightarrow> ?thesis"
      using ji jl "1.prems"(2,4,5) by (auto simp add: ts_stack_swap_versions_def)
    have below_pre: "0 < j \<Longrightarrow> j \<le> i - 1"
      "0 < j \<Longrightarrow> i - 1 < length (ts_stack_remove_version self j)"
      "0 < j \<Longrightarrow> 0 < i - 1"
      "0 < j \<Longrightarrow> \<not> head_in_error h (ts_stack_remove_version self j ! 0)"
      using ji jl "1.prems"(2,4,5) by (simp_all add: rm_length rm_nth_below)
    show ?thesis
    proof (cases ?c)
      case c: ErrorComparisonTakeLeft
      with eq have "(ts_stack_remove_version self i, i - 1) = (self', i')" by auto
      then show ?thesis by (rule removed)
    next
      case c: ErrorComparisonPreferLeft
      show ?thesis
      proof (cases ?m)
        case True
        with eq c have "(ts_stack_remove_version self i, i - 1) = (self', i')" by auto
        then show ?thesis by (rule removed)
      next
        case False
        with eq c have r: "condense_inner h self status_i i (j + 1) = (self', i')" by simp
        show ?thesis
          using ji "1.prems"(2,3,4,5)
          by (intro "1.IH"(1) [OF ji refl refl c False _ _ _ _ _ r]) simp_all
      qed
    next
      case c: ErrorComparisonNone
      show ?thesis
      proof (cases ?m)
        case True
        with eq c have "(ts_stack_remove_version self i, i - 1) = (self', i')"
          by (auto simp add: ts_stack_force_merge_def)
        then show ?thesis by (rule removed)
      next
        case False
        with eq c have r: "condense_inner h self status_i i (j + 1) = (self', i')" by simp
        show ?thesis
          using ji "1.prems"(2,3,4,5)
          by (intro "1.IH"(2) [OF ji refl refl c False _ _ _ _ _ r]) simp_all
      qed
    next
      case c: ErrorComparisonPreferRight
      then have jp: "0 < j" by (intro j_pos) simp
      show ?thesis
      proof (cases ?m)
        case True
        with eq c have r:
          "condense_inner h (ts_stack_remove_version self j) status_i (i - 1) j = (self', i')"
          by simp
        show ?thesis
          using below_pre [OF jp] "1.prems"(3)
          by (intro "1.IH"(3) [OF ji refl refl c True _ _ _ _ _ r]) simp_all
      next
        case False
        with eq c have "(ts_stack_swap_versions self i j, i) = (self', i')" by auto
        with jp show ?thesis by (rule swapped)
      qed
    next
      case c: ErrorComparisonTakeRight
      then have jp: "0 < j" by (intro j_pos) simp
      from c eq have r:
        "condense_inner h (ts_stack_remove_version self j) status_i (i - 1) j = (self', i')"
        by simp
      show ?thesis
        using below_pre [OF jp] "1.prems"(3)
        by (intro "1.IH"(4) [OF ji refl refl c _ _ _ _ _ r]) simp_all
    qed
  qed
qed

lemma condense_outer_front:
  "i \<le> length self \<Longrightarrow>
   (0 < i \<and> \<not> head_in_error h (self ! 0)) \<or>
     \<not> list_all (head_in_error h) (live_versions (drop i self)) \<Longrightarrow>
   fst (condense_outer h self i m a) \<noteq> [] \<and>
     \<not> head_in_error h (fst (condense_outer h self i m a) ! 0)"
proof (induction h self i m a rule: condense_outer.induct)
  case (1 h self i m a)
  show ?case
  proof (cases "i < length self")
    case False
    with "1.prems"(1) have il: "i = length self" by simp
    then have "fst (condense_outer h self i m a) = self"
      by (subst condense_outer.simps) (simp add: ts_stack_version_count_def)
    with il "1.prems"(2) show ?thesis by auto
  next
    case True
    note il = True
    then have ic: "i < ts_stack_version_count self" by (simp add: ts_stack_version_count_def)
    show ?thesis
    proof (cases "ts_stack_is_halted self i")
      case True
      then have hl: "is_halted (self ! i)" by (simp add: ts_stack_is_halted_def)
      have step: "fst (condense_outer h self i m a) =
            fst (condense_outer h (ts_stack_remove_version self i) i m a)"
        using ic True by (subst condense_outer.simps) simp
      have le: "i \<le> length (ts_stack_remove_version self i)"
        using il by (simp add: rm_length)
      have lv: "live_versions (drop i (ts_stack_remove_version self i)) =
            live_versions (drop i self)"
        using rm_drop_at [OF il] live_drop_halted [OF il hl] by simp
      have pre: "(0 < i \<and> \<not> head_in_error h (ts_stack_remove_version self i ! 0)) \<or>
          \<not> list_all (head_in_error h)
            (live_versions (drop i (ts_stack_remove_version self i)))"
        using "1.prems"(2) il by (auto simp add: lv rm_nth_below)
      show ?thesis
        unfolding step by (rule "1.IH"(1) [OF ic True le pre])
    next
      case False
      then have nh: "\<not> is_halted (self ! i)" by (simp add: ts_stack_is_halted_def)
      obtain self' i' where inner: "condense_inner h self (version_status h self i) i 0 = (self', i')"
        by (cases "condense_inner h self (version_status h self i) i 0")
      let ?st = "version_status h self i"
      let ?a = "if \<not> is_in_error ?st then False else a"
      let ?m = "if cost ?st < m then cost ?st else m"
      note shape = condense_inner_shape [OF _ il inner]
      have le: "i' + 1 \<le> length self'" using shape by simp
      have dr: "drop (i' + 1) self' = drop (i + 1) self" using shape by simp
      have step: "fst (condense_outer h self i m a) = fst (condense_outer h self' (i' + 1) ?m ?a)"
        using ic False inner by (subst condense_outer.simps) (simp add: Let_def)
      have lv: "live_versions (drop i self) = self ! i # live_versions (drop (i + 1) self)"
        using live_drop_live [OF il nh] by simp
      have pre: "(0 < i' + 1 \<and> \<not> head_in_error h (self' ! 0)) \<or>
          \<not> list_all (head_in_error h) (live_versions (drop (i' + 1) self'))"
      proof (cases "head_in_error h (self ! i)")
        case False
        then have "\<not> is_in_error ?st" by (simp add: status_in_error)
        from condense_inner_front_of_good [OF _ il this False _ inner]
        show ?thesis by simp
      next
        case True
        then have e: "is_in_error ?st" by (simp add: status_in_error)
        show ?thesis
        proof (cases "0 < i \<and> \<not> head_in_error h (self ! 0)")
          case True
          from condense_inner_keeps_front [OF _ il e _ _ inner] True
          show ?thesis by simp
        next
          case False
          with "1.prems"(2) \<open>head_in_error h (self ! i)\<close> dr show ?thesis
            by (simp add: lv)
        qed
      qed
      show ?thesis
        unfolding step
        by (rule "1.IH"(2) [OF ic False refl refl refl inner [symmetric] refl le pre])
    qed
  qed
qed

lemma condense_truncate_front:
  "self \<noteq> [] \<Longrightarrow> condense_truncate self ! 0 = self ! 0"
proof (induction self rule: condense_truncate.induct)
  case (1 self)
  show ?case
  proof (cases "ts_stack_version_count self > MAX_VERSION_COUNT")
    case True
    then have ne: "ts_stack_remove_version self MAX_VERSION_COUNT \<noteq> []"
      and nth: "ts_stack_remove_version self MAX_VERSION_COUNT ! 0 = self ! 0"
      by (auto simp add: ts_stack_version_count_def ts_stack_remove_version_def
          MAX_VERSION_COUNT_def nth_append)
    have "condense_truncate self = condense_truncate (ts_stack_remove_version self MAX_VERSION_COUNT)"
      using True by (subst condense_truncate.simps) simp
    with "1.IH" [OF True ne] nth show ?thesis by simp
  next
    case False
    then show ?thesis by (subst condense_truncate.simps) simp
  qed
qed

text \<open>Every version that remains was there, not halted, when the pass began.\<close>

lemma rm_take_subset:
  "j < i \<Longrightarrow> i < length self \<Longrightarrow>
     set (take i (ts_stack_remove_version self j)) \<subseteq> set (take (Suc i) self)"
proof
  fix x
  assume ji: "j < i" and il: "i < length self"
    and "x \<in> set (take i (ts_stack_remove_version self j))"
  then obtain k where k: "k < i" and x: "x = ts_stack_remove_version self j ! k"
    by (auto simp add: in_set_conv_nth rm_length)
  have "x = self ! (if k < j then k else Suc k)"
    using x k ji il by (simp add: rm_nth_below rm_nth_above)
  moreover have "(if k < j then k else Suc k) < Suc i" using k by simp
  ultimately show "x \<in> set (take (Suc i) self)"
    using il by (auto simp add: in_set_conv_nth intro!: exI [of _ "if k < j then k else Suc k"])
qed

lemma rm_take_at:
  "i < length self \<Longrightarrow> take i (ts_stack_remove_version self i) = take i self"
  by (simp add: ts_stack_remove_version_def)

lemma swap_take_set:
  "j < i \<Longrightarrow> i < length self \<Longrightarrow>
     set (take (Suc i) (ts_stack_swap_versions self i j)) = set (take (Suc i) self)"
proof -
  assume ji: "j < i" and il: "i < length self"
  have "take (Suc i) (ts_stack_swap_versions self i j) =
      (take (Suc i) self)[i := take (Suc i) self ! j, j := take (Suc i) self ! i]"
    using ji il by (simp add: ts_stack_swap_versions_def take_update_swap)
  then show ?thesis
    using ji il by (simp only: set_swap length_take)
qed

lemma condense_inner_subset:
  "j \<le> i \<Longrightarrow> i < length self \<Longrightarrow> condense_inner h self status_i i j = (self', i') \<Longrightarrow>
   set (take (Suc i') self') \<subseteq> set (take (Suc i) self)"
proof (induction h self status_i i j arbitrary: self' i' rule: condense_inner.induct)
  case (1 h self status_i i j)
  show ?case
  proof (cases "j < i")
    case False
    with "1.prems"(3) show ?thesis by (simp add: condense_inner_done)
  next
    case True
    note ji = True
    let ?c = "parser__compare_versions h (version_status h self j) status_i"
    let ?m = "ts_stack_can_merge self j i"
    note eq = "1.prems"(3) [unfolded condense_inner_unfold [OF ji]]
    have jl: "j < length self" using ji "1.prems"(2) by simp
    have removed: "(ts_stack_remove_version self i, i - 1) = (self', i') \<Longrightarrow> ?thesis"
    proof -
      assume "(ts_stack_remove_version self i, i - 1) = (self', i')"
      then have s: "self' = ts_stack_remove_version self i" and i: "Suc i' = i"
        using ji by auto
      show ?thesis
        unfolding s i rm_take_at [OF "1.prems"(2)] by (rule set_take_subset_set_take) simp
    qed
    have swapped: "(ts_stack_swap_versions self i j, i) = (self', i') \<Longrightarrow> ?thesis"
      using swap_take_set [OF ji "1.prems"(2)] by auto
    have below_pre: "j \<le> i - 1" "i - 1 < length (ts_stack_remove_version self j)"
      using ji jl "1.prems"(2) by (simp_all add: rm_length)
    have below: "set (take (Suc i') self') \<subseteq> set (take (Suc (i - 1)) (ts_stack_remove_version self j))
        \<Longrightarrow> ?thesis"
      using rm_take_subset [OF ji "1.prems"(2)] ji by auto
    show ?thesis
    proof (cases ?c)
      case c: ErrorComparisonTakeLeft
      with eq have "(ts_stack_remove_version self i, i - 1) = (self', i')" by auto
      then show ?thesis by (rule removed)
    next
      case c: ErrorComparisonPreferLeft
      show ?thesis
      proof (cases ?m)
        case True
        with eq c have "(ts_stack_remove_version self i, i - 1) = (self', i')" by auto
        then show ?thesis by (rule removed)
      next
        case False
        with eq c have r: "condense_inner h self status_i i (j + 1) = (self', i')" by simp
        show ?thesis
          using ji "1.prems"(2)
          by (intro "1.IH"(1) [OF ji refl refl c False _ _ r]) simp_all
      qed
    next
      case c: ErrorComparisonNone
      show ?thesis
      proof (cases ?m)
        case True
        with eq c have "(ts_stack_remove_version self i, i - 1) = (self', i')"
          by (auto simp add: ts_stack_force_merge_def)
        then show ?thesis by (rule removed)
      next
        case False
        with eq c have r: "condense_inner h self status_i i (j + 1) = (self', i')" by simp
        show ?thesis
          using ji "1.prems"(2)
          by (intro "1.IH"(2) [OF ji refl refl c False _ _ r]) simp_all
      qed
    next
      case c: ErrorComparisonPreferRight
      show ?thesis
      proof (cases ?m)
        case True
        with eq c have r:
          "condense_inner h (ts_stack_remove_version self j) status_i (i - 1) j = (self', i')"
          by simp
        show ?thesis
          by (rule below) (rule "1.IH"(3) [OF ji refl refl c True below_pre r])
      next
        case False
        with eq c have "(ts_stack_swap_versions self i j, i) = (self', i')" by auto
        then show ?thesis by (rule swapped)
      qed
    next
      case c: ErrorComparisonTakeRight
      with eq have r:
        "condense_inner h (ts_stack_remove_version self j) status_i (i - 1) j = (self', i')"
        by simp
      show ?thesis
        by (rule below) (rule "1.IH"(4) [OF ji refl refl c below_pre r])
    qed
  qed
qed

lemma condense_outer_subset:
  "i \<le> length self \<Longrightarrow>
   set (fst (condense_outer h self i m a)) \<subseteq>
     set (take i self) \<union> set (live_versions (drop i self))"
proof (induction h self i m a rule: condense_outer.induct)
  case (1 h self i m a)
  show ?case
  proof (cases "i < length self")
    case False
    with "1.prems"(1) have il: "i = length self" by simp
    then have "fst (condense_outer h self i m a) = self"
      by (subst condense_outer.simps) (simp add: ts_stack_version_count_def)
    with il show ?thesis by simp
  next
    case True
    note il = True
    then have ic: "i < ts_stack_version_count self" by (simp add: ts_stack_version_count_def)
    show ?thesis
    proof (cases "ts_stack_is_halted self i")
      case True
      then have hl: "is_halted (self ! i)" by (simp add: ts_stack_is_halted_def)
      have step: "fst (condense_outer h self i m a) =
            fst (condense_outer h (ts_stack_remove_version self i) i m a)"
        using ic True by (subst condense_outer.simps) simp
      have le: "i \<le> length (ts_stack_remove_version self i)"
        using il by (simp add: rm_length)
      have lv: "live_versions (drop i (ts_stack_remove_version self i)) =
            live_versions (drop i self)"
        using rm_drop_at [OF il] live_drop_halted [OF il hl] by simp
      show ?thesis
        using "1.IH"(1) [OF ic True le]
        unfolding step lv rm_take_at [OF il] .
    next
      case False
      then have nh: "\<not> is_halted (self ! i)" by (simp add: ts_stack_is_halted_def)
      obtain self' i' where inner: "condense_inner h self (version_status h self i) i 0 = (self', i')"
        by (cases "condense_inner h self (version_status h self i) i 0")
      let ?st = "version_status h self i"
      let ?a = "if \<not> is_in_error ?st then False else a"
      let ?m = "if cost ?st < m then cost ?st else m"
      note shape = condense_inner_shape [OF _ il inner]
      have le: "i' + 1 \<le> length self'" using shape by simp
      have dr: "drop (i' + 1) self' = drop (i + 1) self" using shape by simp
      have step: "fst (condense_outer h self i m a) = fst (condense_outer h self' (i' + 1) ?m ?a)"
        using ic False inner by (subst condense_outer.simps) (simp add: Let_def)
      have lv: "live_versions (drop i self) = self ! i # live_versions (drop (i + 1) self)"
        using live_drop_live [OF il nh] by simp
      have ih: "set (fst (condense_outer h self' (i' + 1) ?m ?a)) \<subseteq>
          set (take (i' + 1) self') \<union> set (live_versions (drop (i' + 1) self'))"
        by (rule "1.IH"(2) [OF ic False refl refl refl inner [symmetric] refl le])
      have tk: "set (take (i' + 1) self') \<subseteq> set (take i self) \<union> {self ! i}"
        using condense_inner_subset [OF _ il inner] il
        by (simp add: take_Suc_conv_app_nth)
      show ?thesis
        unfolding step lv using ih tk unfolding dr by auto
    qed
  qed
qed

lemma condense_truncate_subset:
  "set (condense_truncate self) \<subseteq> set self"
proof (induction self rule: condense_truncate.induct)
  case (1 self)
  show ?case
  proof (cases "ts_stack_version_count self > MAX_VERSION_COUNT")
    case True
    have "set (ts_stack_remove_version self MAX_VERSION_COUNT) \<subseteq> set self"
      by (auto simp add: ts_stack_remove_version_def dest: in_set_takeD in_set_dropD)
    moreover have "condense_truncate self =
        condense_truncate (ts_stack_remove_version self MAX_VERSION_COUNT)"
      using True by (subst condense_truncate.simps) simp
    ultimately show ?thesis using "1.IH" [OF True] by auto
  next
    case False
    then show ?thesis by (subst condense_truncate.simps) simp
  qed
qed

lemma condense_stack_all_in_error:
  "(snd (parser__condense_stack h finished_tree self) \<noteq> [] \<and>
      list_all (head_in_error h) (snd (parser__condense_stack h finished_tree self)))
   = (live_versions self \<noteq> [] \<and> list_all (head_in_error h) (live_versions self))"
proof -
  let ?o = "fst (condense_outer h self 0 UINT_MAX True)"
  have r: "snd (parser__condense_stack h finished_tree self) = condense_truncate ?o"
    by (simp add: parser__condense_stack_def Let_def split_beta)
  have ne: "(condense_truncate ?o \<noteq> []) = (live_versions self \<noteq> [])"
    using condense_stack_remaining [of h finished_tree self]
    by (simp add: r ts_stack_version_count_def)
  have sub: "set (condense_truncate ?o) \<subseteq> set (live_versions self)"
    using condense_truncate_subset [of ?o] condense_outer_subset [of 0 self h UINT_MAX True]
    by auto
  show ?thesis
  proof (cases "list_all (head_in_error h) (live_versions self)")
    case True
    with sub have "list_all (head_in_error h) (condense_truncate ?o)"
      by (auto simp add: list_all_iff)
    with True ne show ?thesis by (simp add: r)
  next
    case False
    from condense_outer_front [of 0 self h UINT_MAX True] False
    have o: "?o \<noteq> []" "\<not> head_in_error h (?o ! 0)" by simp_all
    then have "\<not> head_in_error h (condense_truncate ?o ! 0)"
      by (simp add: condense_truncate_front)
    moreover have "condense_truncate ?o \<noteq> []" using o by (simp add: condense_truncate_nonempty)
    ultimately have "\<not> list_all (head_in_error h) (condense_truncate ?o)"
      by (auto simp add: list_all_length)
    with False show ?thesis by (simp add: r)
  qed
qed

text \<open>
  C5, as the code has it. \<^verbatim>\<open>should_halt\<close> is true exactly when at least one version
  remains after the merging and pruning and every remaining version is in \<^verbatim>\<open>ERROR_STATE\<close>,
  or a finished tree exists whose error cost is below \<^verbatim>\<open>UINT_MAX\<close> and below the error
  cost of every version that was not halted when the pass began: the minimum is taken
  while the versions are visited and counts the versions that the pass removes.
\<close>

theorem condense_stack_should_halt:
  "fst (parser__condense_stack h finished_tree self) =
    ((0 < ts_stack_version_count (snd (parser__condense_stack h finished_tree self)) \<and>
      list_all (head_in_error h) (snd (parser__condense_stack h finished_tree self))) \<or>
     (case finished_tree of
        None \<Rightarrow> False
      | Some t \<Rightarrow>
          error_cost (data t) < UINT_MAX \<and>
          list_all (\<lambda>v. error_cost (data t) < node_error_cost (node v)) (live_versions self)))"
proof -
  obtain self1 m a where o: "condense_outer h self 0 UINT_MAX True = (self1, m, a)"
    by (cases "condense_outer h self 0 UINT_MAX True")
  from condense_outer_accumulates [of h self 0 UINT_MAX True] o
  have m: "m = fold (\<lambda>v m. if node_error_cost (node v) < m then node_error_cost (node v) else m)
        (live_versions self) UINT_MAX"
    and a: "a = list_all (head_in_error h) (live_versions self)"
    by simp_all
  have code: "fst (parser__condense_stack h finished_tree self) =
    ((list_all (head_in_error h) (live_versions self) \<and>
      0 < ts_stack_version_count (snd (parser__condense_stack h finished_tree self))) \<or>
     (case finished_tree of
        None \<Rightarrow> False
      | Some t \<Rightarrow>
          error_cost (data t) < UINT_MAX \<and>
          list_all (\<lambda>v. error_cost (data t) < node_error_cost (node v)) (live_versions self)))"
    by (cases finished_tree)
       (simp_all add: parser__condense_stack_def o m a below_fold_min Let_def)
  have "(0 < ts_stack_version_count (snd (parser__condense_stack h finished_tree self)) \<and>
      list_all (head_in_error h) (snd (parser__condense_stack h finished_tree self))) =
    (list_all (head_in_error h) (live_versions self) \<and>
      0 < ts_stack_version_count (snd (parser__condense_stack h finished_tree self)))"
    using condense_stack_all_in_error [of h finished_tree self]
      condense_stack_remaining [of h finished_tree self]
    by (auto simp add: ts_stack_version_count_def)
  then show ?thesis by (simp only: code)
qed

text \<open>
  Seven versions: six outside the error state with the cost 1000 and one in the error
  state with the cost 500, which is the seventh and the one the truncation removes; the
  finished tree costs 700. Every version that remains costs more than the finished tree,
  but the minimum was taken with the removed version: the code does not halt.
\<close>

theorem condense_stack_counterexample:
  "\<not> fst (parser__condense_stack example_costs (Some (example_leaf 2 700 0)) example_stack)
   \<and> should_halt_spec example_costs (Some (example_leaf 2 700 0))
       (snd (parser__condense_stack example_costs (Some (example_leaf 2 700 0)) example_stack))"
  by code_simp

text \<open>
  With no version on the stack the pass halts exactly when a finished tree exists whose
  error cost is below \<^verbatim>\<open>UINT_MAX\<close>, the initial value of \<^verbatim>\<open>min_error_cost\<close>.
\<close>

lemma condense_stack_no_versions:
  "fst (parser__condense_stack h finished_tree []) =
     (case finished_tree of None \<Rightarrow> False | Some t \<Rightarrow> error_cost (data t) < UINT_MAX)"
proof -
  have o: "condense_outer h [] 0 UINT_MAX True = ([], UINT_MAX, True)"
    by (subst condense_outer.simps) (simp add: ts_stack_version_count_def)
  have t: "condense_truncate [] = []"
    by (subst condense_truncate.simps) (simp add: ts_stack_version_count_def)
  show ?thesis
    by (simp add: parser__condense_stack_def o t ts_stack_version_count_def split: option.splits)
qed

section \<open>Properties of the lexer's external step\<close>

text \<open>
  Only the external step sets \<^verbatim>\<open>found_external_token\<close>: when the loop ends with the flag
  set, and it was not set before, the last thing the loop did was an external step that
  left it.
\<close>

lemma lex_internal_found:
  "found_external_token (snd (lex_internal h language start_position v)) = found_external_token v"
  by (simp add: lex_internal_def Let_def split_beta)

lemma lex_external_found:
  "\<not> fst (lex_external language external_token v) \<Longrightarrow>
     found_external_token (snd (lex_external language external_token v)) = found_external_token v"
  by (simp add: lex_external_def Let_def split_beta split: option.splits if_splits)

lemma lex_loop_found_external:
  assumes "lex_loop h language start_position external_token v = Some v'"
    and "\<not> found_external_token v"
    and "found_external_token v'"
  shows "\<exists>u. lex_external language external_token u = (True, v')"
proof -
  have "\<not> found_external_token v \<longrightarrow> found_external_token v' \<longrightarrow>
        (\<exists>u. lex_external language external_token u = (True, v'))"
    using assms(1)
  proof (induction rule: lex_loop.raw_induct)
    case (1 approx h language start_position external_token v y)
    show ?case
    proof (intro impI)
      assume nf: "\<not> found_external_token v" and f: "found_external_token y"
      show "\<exists>u. lex_external language external_token u = (True, y)"
      proof (cases "fst (lex_external language external_token v)")
        case True
        with "1.hyps"(1) have "lex_external language external_token v = (True, y)"
          by (simp add: lex_iteration_def split_beta prod_eq_iff)
        then show ?thesis by blast
      next
        case False
        let ?w = "snd (lex_external language external_token v)"
        have w: "\<not> found_external_token ?w"
          using lex_external_found [OF False] nf by simp
        let ?r = "lex_internal h language start_position ?w"
        have it: "lex_iteration h language start_position external_token v = ?r"
          using False by (simp add: lex_iteration_def split_beta)
        have r: "\<not> found_external_token (snd ?r)"
          using w by (simp add: lex_internal_found)
        show ?thesis
        proof (cases "fst ?r")
          case True
          with "1.hyps"(1) it have "y = snd ?r" by (simp add: split_beta)
          with r f show ?thesis by simp
        next
          case False
          with "1.hyps"(1) it
          have a: "approx h language start_position external_token (snd ?r) = Some y"
            by (simp add: split_beta)
          have "lex_loop h language start_position external_token v =
                lex_loop h language start_position external_token (snd ?r)"
            using False it by (subst lex_loop.simps) (simp add: split_beta)
          with "1.prems" have "lex_loop h language start_position external_token (snd ?r) = Some y"
            by simp
          from "1.IH" [OF a this] r f show ?thesis by simp
        qed
      qed
    qed
  qed (fact assms(1))
  with assms(2,3) show ?thesis by simp
qed

text \<open>
  C3, as the code has it. When external tokens are valid and the external scanner returns
  true, the token is committed as an external token (\<^verbatim>\<open>found_external_token\<close> is set and the
  loop is left) only if the lexer is outside error mode or the token ends past the
  position where the scan began. A token of no bytes that is scanned in error mode is
  dropped: the flag stays as it was, the lexer goes back to where the scan began, and the
  internal lexer runs. A token that is scanned outside error mode is committed whatever
  its length, and \<^verbatim>\<open>parser__lex\<close> returns it as an external token. When the loop is left
  through a committed token, the tree that \<^verbatim>\<open>parser__lex\<close> makes is the external token
  unless a character was skipped before the scan: then it is the error leaf of the
  skipped characters.
\<close>

theorem lex_external_commit:
  assumes "valid_external_tokens v = Some valid"
    and "external_scanner_scan language valid
           (parser__restore_external_scanner language external_token
              (ts_lexer_start language (self_lexer v))) = (True, scanned)"
  shows
    "let lx = fix_token_end language scanned;
         empty_in_error_mode =
           (error_mode v \<and>
            bytes (token_end_position lx) \<le> bytes (current_position (self_lexer v)));
         dropped =
           v\<lparr>last_byte_scanned := note_byte_scanned lx (last_byte_scanned v),
             self_lexer := ts_lexer_reset language (current_position (self_lexer v)) lx\<rparr>;
         committed = v\<lparr>self_lexer := lx, found_external_token := True\<rparr>;
         external_leaf =
           (let leaf = ts_tree_make_leaf language
                         (external_scanner_symbol_map language (result_symbol lx))
                         (length_sub language (token_start_position lx) start_position)
                         (length_sub language (token_end_position lx) (token_start_position lx))
            in Tree ((data leaf)\<lparr>has_external_tokens := True,
                         external_token_state := external_scanner_serialize language lx\<rparr>)
                 (children leaf));
         error_leaf =
           ts_tree_make_error language
             (length_sub language (error_end_position v) (error_start_position v))
             (length_sub language (error_start_position v) start_position)
             (first_error_character v);
         finish =
           (\<lambda>t. Tree ((data t)
                        \<lparr>bytes_scanned :=
                           note_byte_scanned lx (last_byte_scanned v) - bytes start_position + 1,
                         parse_state := state,
                         first_leaf_lex_mode := lex_mode v\<rparr>)
                  (children t))
     in lex_external language external_token v =
          (if empty_in_error_mode then (False, dropped) else (True, committed))
      \<and> lex_loop h language start_position external_token v =
          (if empty_in_error_mode then
             (case lex_internal h language start_position dropped of
                (left, v') \<Rightarrow>
                  if left then Some v'
                  else lex_loop h language start_position external_token v')
           else Some committed)
      \<and> lex_result language start_position state committed =
          (finish (if skipped_error v then error_leaf else external_leaf), lx)
      \<and> (v = lex_start h language initial_lexer start_position state \<longrightarrow>
           \<not> empty_in_error_mode \<longrightarrow>
           parser__lex h language initial_lexer start_position external_token state =
             Some (finish external_leaf, lx))"
proof -
  define lx where "lx = fix_token_end language scanned"
  define empty_in_error_mode where "empty_in_error_mode =
           (error_mode v \<and>
            bytes (token_end_position lx) \<le> bytes (current_position (self_lexer v)))"
  define dropped where "dropped =
           v\<lparr>last_byte_scanned := note_byte_scanned lx (last_byte_scanned v),
             self_lexer := ts_lexer_reset language (current_position (self_lexer v)) lx\<rparr>"
  define committed where "committed = v\<lparr>self_lexer := lx, found_external_token := True\<rparr>"
  note defs = lx_def empty_in_error_mode_def dropped_def committed_def
  have ext: "lex_external language external_token v =
           (if empty_in_error_mode then (False, dropped) else (True, committed))"
    using assms by (simp add: lex_external_def Let_def defs)
  have loop: "lex_loop h language start_position external_token v =
           (if empty_in_error_mode then
              (case lex_internal h language start_position dropped of
                 (left, v') \<Rightarrow>
                   if left then Some v'
                   else lex_loop h language start_position external_token v')
            else Some committed)"
    by (subst lex_loop.simps) (simp add: lex_iteration_def ext)
  have res: "lex_result language start_position state committed =
      (let leaf = ts_tree_make_leaf language
                    (external_scanner_symbol_map language (result_symbol lx))
                    (length_sub language (token_start_position lx) start_position)
                    (length_sub language (token_end_position lx) (token_start_position lx));
           result =
             (if skipped_error v then
                ts_tree_make_error language
                  (length_sub language (error_end_position v) (error_start_position v))
                  (length_sub language (error_start_position v) start_position)
                  (first_error_character v)
              else Tree ((data leaf)\<lparr>has_external_tokens := True,
                           external_token_state := external_scanner_serialize language lx\<rparr>)
                     (children leaf))
       in (Tree ((data result)
                   \<lparr>bytes_scanned :=
                      note_byte_scanned lx (last_byte_scanned v) - bytes start_position + 1,
                    parse_state := state,
                    first_leaf_lex_mode := lex_mode v\<rparr>)
             (children result),
           lx))"
    by (simp add: lex_result_def committed_def Let_def)
  have lex: "v = lex_start h language initial_lexer start_position state \<Longrightarrow>
          \<not> empty_in_error_mode \<Longrightarrow>
          parser__lex h language initial_lexer start_position external_token state =
            Some (lex_result language start_position state committed)"
    using loop by (auto simp add: parser__lex_def)
  have skipped: "v = lex_start h language initial_lexer start_position state \<Longrightarrow> \<not> skipped_error v"
    by (simp add: lex_start_def Let_def)
  show ?thesis
    unfolding Let_def
    using ext loop res lex skipped
    by (auto simp add: defs Let_def)
qed

text \<open>
  Three scans. In error mode the scanner of the first language returns a token of no
  bytes, which is dropped. Outside error mode, at the start of \<^verbatim>\<open>parser__lex\<close> in state 2,
  the same token is committed and returned as an external token of no bytes. In the
  second language, in the error state, the byte at 0 is skipped and the scan at byte 1
  returns a token of one byte: it is committed, and \<^verbatim>\<open>parser__lex\<close> returns the error leaf
  of the skipped byte.
\<close>

theorem lex_external_commit_witness:
  "valid_external_tokens (example_lex_vars True) = Some [True]
   \<and> fst (external_scanner_scan example_language [True]
           (parser__restore_external_scanner example_language None
              (ts_lexer_start example_language (self_lexer (example_lex_vars True)))))
   \<and> error_mode (example_lex_vars True)
   \<and> \<not> fst (lex_external example_language None (example_lex_vars True))
   \<and> \<not> found_external_token (snd (lex_external example_language None (example_lex_vars True)))
   \<and> valid_external_tokens (lex_start example_costs example_language example_lexer zero_length 2)
       = Some [True]
   \<and> fst (external_scanner_scan example_language [True]
           (parser__restore_external_scanner example_language None
              (ts_lexer_start example_language
                 (self_lexer (lex_start example_costs example_language example_lexer
                    zero_length 2)))))
   \<and> \<not> error_mode (lex_start example_costs example_language example_lexer zero_length 2)
   \<and> map_option (has_external_tokens \<circ> data \<circ> fst)
        (parser__lex example_costs example_language example_lexer zero_length None 2)
       = Some True
   \<and> map_option (bytes \<circ> tree_size \<circ> data \<circ> fst)
        (parser__lex example_costs example_language example_lexer zero_length None 2)
       = Some 0
   \<and> lex_iteration example_costs example_scanning_language zero_length None
        (lex_start example_costs example_scanning_language example_lexer zero_length 0)
       = (False, example_skipped_vars)
   \<and> valid_external_tokens example_skipped_vars = Some [True]
   \<and> fst (external_scanner_scan example_scanning_language [True]
           (parser__restore_external_scanner example_scanning_language None
              (ts_lexer_start example_scanning_language (self_lexer example_skipped_vars))))
   \<and> error_mode example_skipped_vars
   \<and> skipped_error example_skipped_vars
   \<and> fst (lex_external example_scanning_language None example_skipped_vars)
   \<and> found_external_token
        (snd (lex_external example_scanning_language None example_skipped_vars))
   \<and> bytes (token_end_position (self_lexer
        (snd (lex_external example_scanning_language None example_skipped_vars)))) = 2
   \<and> map_option (symbol \<circ> data \<circ> fst)
        (parser__lex example_costs example_scanning_language example_lexer zero_length None 0)
       = Some (- 1)
   \<and> map_option (has_external_tokens \<circ> data \<circ> fst)
        (parser__lex example_costs example_scanning_language example_lexer zero_length None 0)
       = Some False
   \<and> map_option (bytes \<circ> tree_size \<circ> data \<circ> fst)
        (parser__lex example_costs example_scanning_language example_lexer zero_length None 0)
       = Some 1"
proof -
  let ?v = "example_lex_vars True"
  let ?w = "lex_start example_costs example_language example_lexer zero_length 2"
  let ?lx = "example_lexer\<lparr>token_start_position := zero_length,
                            token_end_position := zero_length, result_symbol := 0\<rparr>"
  have a: "valid_external_tokens ?v = Some [True]"
    by (simp add: example_lex_vars_def)
  have s: "external_scanner_scan example_language [True]
             (parser__restore_external_scanner example_language None
                (ts_lexer_start example_language (self_lexer ?v))) = (True, ?lx)"
    by (simp add: example_language_def example_lex_vars_def example_lexer_def
        parser__restore_external_scanner_def)
  have w: "?w = example_lex_vars False"
    by (simp add: lex_start_def example_lex_vars_def example_language_def example_costs_def
        example_lexer_def zero_length_def Let_def)
  have b: "valid_external_tokens ?w = Some [True]"
    unfolding w by (simp add: example_lex_vars_def)
  have t: "external_scanner_scan example_language [True]
             (parser__restore_external_scanner example_language None
                (ts_lexer_start example_language (self_lexer ?w))) = (True, ?lx)"
    unfolding w
    by (simp add: example_language_def example_lex_vars_def example_lexer_def
        parser__restore_external_scanner_def)
  have e: "error_mode ?v" "\<not> error_mode ?w"
    unfolding w by (simp_all add: example_lex_vars_def)
  have f: "fix_token_end example_language ?lx = ?lx"
    by (simp add: fix_token_end_def example_language_def)
  from lex_external_commit [OF a s, where h = example_costs and start_position = zero_length
        and state = 2 and initial_lexer = example_lexer,
      unfolded Let_def f]
  have first: "\<not> fst (lex_external example_language None ?v)
      \<and> \<not> found_external_token (snd (lex_external example_language None ?v))"
    by (simp add: example_lex_vars_def example_lexer_def zero_length_def)
  from lex_external_commit [OF b t, where h = example_costs and start_position = zero_length
        and state = 2 and initial_lexer = example_lexer, unfolded Let_def f w]
  have second: "map_option (has_external_tokens \<circ> data \<circ> fst)
        (parser__lex example_costs example_language example_lexer zero_length None 2)
       = Some True
   \<and> map_option (bytes \<circ> tree_size \<circ> data \<circ> fst)
        (parser__lex example_costs example_language example_lexer zero_length None 2)
       = Some 0"
    by (simp add: example_lex_vars_def example_language_def example_lexer_def
        zero_length_def example_leaf_def)
  let ?L = example_scanning_language
  let ?u = example_skipped_vars
  let ?lu = "example_lexer\<lparr>current_position := one_byte_on (one_byte_on zero_length),
                            token_start_position := one_byte_on zero_length,
                            token_end_position := one_byte_on (one_byte_on zero_length),
                            result_symbol := 0\<rparr>"
  have it: "lex_iteration example_costs ?L zero_length None
        (lex_start example_costs ?L example_lexer zero_length 0) = (False, ?u)"
    by (simp add: lex_iteration_def lex_external_def lex_internal_def lex_start_def
        example_scanning_language_def example_language_def example_skipped_vars_def
        example_lexer_def example_costs_def zero_length_def one_byte_on_def
        parser__restore_external_scanner_def note_byte_scanned_def Let_def)
  have c: "valid_external_tokens ?u = Some [True]"
    by (simp add: example_skipped_vars_def)
  have x: "external_scanner_scan ?L [True]
             (parser__restore_external_scanner ?L None
                (ts_lexer_start ?L (self_lexer ?u))) = (True, ?lu)"
    by (simp add: example_scanning_language_def example_language_def example_skipped_vars_def
        example_lexer_def parser__restore_external_scanner_def zero_length_def one_byte_on_def)
  have g: "fix_token_end ?L ?lu = ?lu"
    by (simp add: fix_token_end_def example_scanning_language_def example_language_def)
  have m: "error_mode ?u" "skipped_error ?u"
    by (simp_all add: example_skipped_vars_def)
  note third = lex_external_commit [OF c x, where h = example_costs
      and start_position = zero_length and state = 0 and initial_lexer = example_lexer,
      unfolded Let_def g]
  have nonempty: "\<not> (error_mode ?u \<and>
      bytes (token_end_position ?lu) \<le> bytes (current_position (self_lexer ?u)))"
    by (simp add: example_skipped_vars_def example_lexer_def zero_length_def one_byte_on_def
        word_le_nat_alt)
  from third nonempty
  have ext: "lex_external ?L None ?u = (True, ?u\<lparr>self_lexer := ?lu, found_external_token := True\<rparr>)"
    and loop: "lex_loop example_costs ?L zero_length None ?u =
        Some (?u\<lparr>self_lexer := ?lu, found_external_token := True\<rparr>)"
    and res: "lex_result ?L zero_length 0 (?u\<lparr>self_lexer := ?lu, found_external_token := True\<rparr>) =
        (Tree ((data (ts_tree_make_error ?L
                  (length_sub ?L (error_end_position ?u) (error_start_position ?u))
                  (length_sub ?L (error_start_position ?u) zero_length)
                  (first_error_character ?u)))
               \<lparr>bytes_scanned := note_byte_scanned ?lu (last_byte_scanned ?u) - bytes zero_length + 1,
                 parse_state := 0, first_leaf_lex_mode := lex_mode ?u\<rparr>)
           (children (ts_tree_make_error ?L
                  (length_sub ?L (error_end_position ?u) (error_start_position ?u))
                  (length_sub ?L (error_start_position ?u) zero_length)
                  (first_error_character ?u))), ?lu)"
    using m by simp_all
  have "lex_loop example_costs ?L zero_length None
        (lex_start example_costs ?L example_lexer zero_length 0) =
        Some (?u\<lparr>self_lexer := ?lu, found_external_token := True\<rparr>)"
    by (subst lex_loop.simps) (simp add: it loop)
  then have lexed: "parser__lex example_costs ?L example_lexer zero_length None 0 =
      Some (lex_result ?L zero_length 0 (?u\<lparr>self_lexer := ?lu, found_external_token := True\<rparr>))"
    by (simp add: parser__lex_def)
  have fourth: "map_option (symbol \<circ> data \<circ> fst)
        (parser__lex example_costs ?L example_lexer zero_length None 0) = Some (- 1)
   \<and> map_option (has_external_tokens \<circ> data \<circ> fst)
        (parser__lex example_costs ?L example_lexer zero_length None 0) = Some False
   \<and> map_option (bytes \<circ> tree_size \<circ> data \<circ> fst)
        (parser__lex example_costs ?L example_lexer zero_length None 0) = Some 1"
    unfolding lexed res
    by (simp add: example_scanning_language_def example_language_def example_skipped_vars_def
        example_leaf_def zero_length_def one_byte_on_def)
  have fifth: "bytes (token_end_position (self_lexer (snd (lex_external ?L None ?u)))) = 2"
    unfolding ext by (simp add: zero_length_def one_byte_on_def)
  from first second a s b t e it c x m ext fourth fifth show ?thesis by simp
qed

text \<open>
  Outside error mode the scanner of the example returns an empty token: the step commits
  it and leaves the loop, and \<^verbatim>\<open>parser__lex\<close> returns it as an external token of no bytes.
\<close>

theorem lex_external_counterexample:
  "\<not> error_mode (example_lex_vars False)
   \<and> fst (lex_external example_language None (example_lex_vars False))
   \<and> found_external_token (snd (lex_external example_language None (example_lex_vars False)))
   \<and> bytes (token_end_position
             (self_lexer (snd (lex_external example_language None (example_lex_vars False)))))
       = bytes (current_position (self_lexer (example_lex_vars False)))
   \<and> map_option (has_external_tokens \<circ> data \<circ> fst)
        (parser__lex example_costs example_language example_lexer zero_length None 2)
       = Some True
   \<and> map_option (bytes \<circ> tree_size \<circ> data \<circ> fst)
        (parser__lex example_costs example_language example_lexer zero_length None 2)
       = Some 0"
  by code_simp

section \<open>Properties of the reuse of nodes of the previous tree\<close>

text \<open>
  C4, as the code has it, for a candidate at the current position whose external-token
  state matches. When it is refused because it has changes, is an error node, is fragile
  or is interior while the parser is in ambiguity, the cursor descends to its first child
  and the check is retried there if the candidate has children; if it is a leaf, the
  cursor moves past it, the top of the stack is broken down, the state is read again and
  the loop goes on with the next node. When it is refused by
  \<^verbatim>\<open>parser__can_reuse_first_leaf\<close>, the cursor moves past the first leaf of the candidate
  and the loop is left with no tree, for the token cache and the lexer. Otherwise the
  candidate is returned.
\<close>

theorem reuse_loop_rejection:
  assumes "tree reusable_node = Some t"
    and "byte_index reusable_node = bytes position"
    and "ts_tree_external_token_state_eq (last_external_token reusable_node) last_token"
  shows "reuse_loop language breakdown_top_of_stack ambiguity position last_token version
           stk state reusable_node =
    (if cant_reuse_reason language ambiguity t \<noteq> None then
       (case children t of
          c # cs \<Rightarrow>
            reuse_loop language breakdown_top_of_stack ambiguity position last_token version
              stk state (reusable_node\<lparr>tree := Some c, following := cs @ following reusable_node\<rparr>)
        | [] \<Rightarrow>
            reuse_loop language breakdown_top_of_stack ambiguity position last_token version
              (breakdown_top_of_stack stk version)
              (ts_stack_top_state (breakdown_top_of_stack stk version) version)
              (reusable_node_pop language reusable_node))
     else if \<not> parser__can_reuse_first_leaf language state t
                 (ts_language_table_entry language state (first_leaf_symbol (data t))) then
       \<lparr>reused = None, reuse_stack = stk, reuse_state = state,
        reuse_node = reusable_node_pop_leaf language reusable_node\<rparr>
     else
       \<lparr>reused = Some (Tree ((data t)\<lparr>ref_count := ref_count (data t) + 1\<rparr>) (children t),
                       ts_language_table_entry language state (first_leaf_symbol (data t))),
        reuse_stack = stk, reuse_state = state, reuse_node = reusable_node\<rparr>)"
  using assms
  by (subst reuse_loop.simps)
     (simp add: reusable_node_breakdown_def Let_def split: list.splits)

text \<open>
  The three refusals on the inputs of the examples: an interior node in ambiguity, an
  error leaf, and a node that the parse table does not let the state 1 reuse.
\<close>

theorem reuse_loop_rejection_witness:
  "tree (example_cursor 0) \<noteq> None
   \<and> byte_index (example_cursor 0) = bytes example_position
   \<and> ts_tree_external_token_state_eq (last_external_token (example_cursor 0)) None
   \<and> reuse_loop example_language example_breakdown True example_position None 0
         [example_head 1 2 0] 2 (example_cursor 0)
       = reuse_loop example_language example_breakdown True example_position None 0
           [example_head 1 2 0] 2 (snd (reusable_node_breakdown (example_cursor 0)))
   \<and> reuse_loop example_language example_breakdown False example_position None 0
         [example_head 1 2 0] 2 example_error_cursor
       = reuse_loop example_language example_breakdown False example_position None 0
           [example_head 1 2 0] 2 (reusable_node_pop example_language example_error_cursor)
   \<and> reuse_loop example_language example_breakdown False example_position None 0
         [example_head 1 1 0] 1 (example_cursor 5)
       = \<lparr>reused = None, reuse_stack = [example_head 1 1 0], reuse_state = 1,
          reuse_node = reusable_node_pop_leaf example_language (example_cursor 5)\<rparr>"
proof -
  let ?root = "example_node 8 0
     [example_node 9 0 [example_node 7 0 [], example_node 4 0 []], example_node 4 0 []]"
  let ?root5 = "example_node 8 5
     [example_node 9 0 [example_node 7 0 [], example_node 4 0 []], example_node 4 5 []]"
  have t: "tree (example_cursor 0) = Some ?root" "tree (example_cursor 5) = Some ?root5"
    "tree example_error_cursor = Some (example_node (- 1) 1 [])"
    by (simp_all add: example_cursor_def example_error_cursor_def)
  have b: "byte_index (example_cursor 0) = bytes example_position"
    "byte_index (example_cursor 5) = bytes example_position"
    "byte_index example_error_cursor = bytes example_position"
    by (simp_all add: example_cursor_def example_error_cursor_def example_position_def)
  have e: "ts_tree_external_token_state_eq (last_external_token (example_cursor 0)) None"
    "ts_tree_external_token_state_eq (last_external_token (example_cursor 5)) None"
    "ts_tree_external_token_state_eq (last_external_token example_error_cursor) None"
    by (simp_all add: example_cursor_def example_error_cursor_def
        ts_tree_external_token_state_eq_def)
  have r1: "cant_reuse_reason example_language True ?root \<noteq> None"
    by (simp add: cant_reuse_reason_def example_node_def example_leaf_def
        example_language_def child_count_def)
  have r2: "cant_reuse_reason example_language False (example_node (- 1) 1 []) \<noteq> None"
    by (simp add: cant_reuse_reason_def example_node_def example_leaf_def
        example_language_def child_count_def)
  have r3: "cant_reuse_reason example_language False ?root5 = None"
    by (simp add: cant_reuse_reason_def example_node_def example_leaf_def
        example_language_def child_count_def)
  have c3: "\<not> parser__can_reuse_first_leaf example_language 1 ?root5
              (ts_language_table_entry example_language 1 (first_leaf_symbol (data ?root5)))"
    by (simp add: parser__can_reuse_first_leaf_def example_node_def example_leaf_def
        example_language_def child_count_def)
  have bd: "example_breakdown [example_head 1 2 0] 0 = [example_head 1 2 0]"
    "ts_stack_top_state [example_head 1 2 0] 0 = 2"
    by (simp_all add: example_breakdown_def ts_stack_top_state_def example_head_def)
  have d: "snd (reusable_node_breakdown (example_cursor 0)) =
      (example_cursor 0)\<lparr>tree := Some (example_node 9 0 [example_node 7 0 [], example_node 4 0 []]),
        following := [example_node 4 0 []] @ following (example_cursor 0)\<rparr>"
    by (simp add: reusable_node_breakdown_def example_cursor_def example_node_def)
  have ch: "children ?root = [example_node 9 0 [example_node 7 0 [], example_node 4 0 []],
              example_node 4 0 []]"
    "children (example_node (- 1) 1 []) = []"
    by (simp_all add: example_node_def)
  from reuse_loop_rejection [OF t(1) b(1) e(1), of example_language example_breakdown True 0
      "[example_head 1 2 0]" 2]
    reuse_loop_rejection [OF t(3) b(3) e(3), of example_language example_breakdown False 0
      "[example_head 1 2 0]" 2]
    reuse_loop_rejection [OF t(2) b(2) e(2), of example_language example_breakdown False 0
      "[example_head 1 1 0]" 1]
  show ?thesis
    by (simp only: r1 r2 r3 c3 bd d ch t b e if_True if_False list.case simp_thms
        not_None_eq option.simps)
qed

text \<open>
  A node with the error cost 5 whose first leaf depends on the lookahead is refused by
  \<^verbatim>\<open>parser__can_reuse_first_leaf\<close> in state 1. The loop is left with no tree and with the
  cursor past the first leaf, at byte 11; it has not gone down to the first child, an
  error-free node of two leaves, on which the same check succeeds.
\<close>

theorem reuse_loop_counterexample:
  "cant_reuse_reason example_language False (example_node 8 5
       [example_node 9 0 [example_node 7 0 [], example_node 4 0 []], example_node 4 5 []]) = None
   \<and> reused (reuse_loop example_language example_breakdown False example_position None 0
         [example_head 1 1 0] 1 (example_cursor 5)) = None
   \<and> tree (reuse_node (reuse_loop example_language example_breakdown False example_position None 0
         [example_head 1 1 0] 1 (example_cursor 5))) = Some (example_node 4 0 [])
   \<and> byte_index (reuse_node (reuse_loop example_language example_breakdown False example_position
         None 0 [example_head 1 1 0] 1 (example_cursor 5))) = 11
   \<and> tree (snd (reusable_node_breakdown (example_cursor 5)))
       = Some (example_node 9 0 [example_node 7 0 [], example_node 4 0 []])
   \<and> reused (reuse_loop example_language example_breakdown False example_position None 0
         [example_head 1 1 0] 1 (snd (reusable_node_breakdown (example_cursor 5)))) \<noteq> None"
  by code_simp

section \<open>Properties of the token cache\<close>




section \<open>Properties of the shift\<close>

text \<open>
  C9, as the code has it. When \<^verbatim>\<open>parser__shift\<close> has to change the extra flag of the
  lookahead, it copies the tree first exactly when the stack has more than one version:
  the original is then as it was, and the copy, with the new flag and one reference, is
  what the stack gets. With one version the tree itself gets the new flag and one more
  reference, whatever its reference count is (at \<^verbatim>\<open>UINT_MAX\<close> the count wraps to 0 and the
  release frees the tree).
\<close>

theorem shift_extra_flag:
  assumes "deref (store self) p = Some t"
    and "e \<noteq> extra (data t)"
  shows "deref (store (parser__shift language self version state p e)) p =
    (if ts_stack_version_count (stack self) > 1 then Some t
     else if ref_count (data t) + 1 = 0 then None
     else Some (Tree ((data t)\<lparr>ref_count := ref_count (data t) + 1, extra := e\<rparr>) (children t)))
   \<and> (ts_stack_version_count (stack self) > 1 \<longrightarrow>
        deref (store (parser__shift language self version state p e)) (length (store self)) =
          Some (Tree ((data t)\<lparr>ref_count := 1, extra := e\<rparr>) (children t)))"
proof -
  from assms(1) have pl: "p < length (store self)" and sp: "store self ! p = Some t"
    by (auto simp add: deref_def split: if_splits)
  show ?thesis
  proof (cases "ts_stack_version_count (stack self) > 1")
    case True
    with assms pl sp show ?thesis
      by (simp add: parser__shift_def Let_def ts_tree_make_copy_def set_extra_def
          ts_tree_retain_def ts_tree_release_def deref_def nth_append)
  next
    case False
    with assms pl sp show ?thesis
      by (simp add: parser__shift_def Let_def set_extra_def
          ts_tree_retain_def ts_tree_release_def deref_def add.commute)
  qed
qed

theorem shift_extra_flag_witness:
  "deref (store example_parser_two_versions) 0 = Some (example_token 2)
   \<and> True \<noteq> extra (data (example_token 2))
   \<and> ts_stack_version_count (stack example_parser_two_versions) = 2
   \<and> deref (store (parser__shift example_language example_parser_two_versions 0 1 0 True)) 0
       = Some (example_token 2)
   \<and> count_and_extra
        (deref (store (parser__shift example_language example_parser_two_versions 0 1 0 True)) 1)
       = Some (1, True)"
proof -
  have d: "deref (store example_parser_two_versions) 0 = Some (example_token 2)"
    by (simp add: example_parser_two_versions_def example_parser_def deref_def)
  have x: "True \<noteq> extra (data (example_token 2))"
    by (simp add: example_token_def example_leaf_def)
  have v: "ts_stack_version_count (stack example_parser_two_versions) = 2"
    by (simp add: example_parser_two_versions_def ts_stack_version_count_def)
  have l: "length (store example_parser_two_versions) = 1"
    by (simp add: example_parser_two_versions_def example_parser_def)
  from shift_extra_flag [OF d x, of example_language 0 1] d x v l show ?thesis
    by (simp add: count_and_extra_def)
qed

text \<open>
  One version, and a lookahead that the token cache holds too (reference count 2): the
  shift makes no copy and sets the extra flag of the tree that the cache points to.
\<close>

theorem shift_counterexample:
  "token (token_cache (example_parser 1 2)) = Some 0
   \<and> count_and_extra (deref (store (example_parser 1 2)) 0) = Some (2, False)
   \<and> ts_stack_version_count (stack (example_parser 1 2)) = 1
   \<and> token (token_cache (parser__shift example_language (example_parser 1 2) 0 1 0 True)) = Some 0
   \<and> length (store (parser__shift example_language (example_parser 1 2) 0 1 0 True)) = 1
   \<and> count_and_extra
        (deref (store (parser__shift example_language (example_parser 1 2) 0 1 0 True)) 0)
       = Some (3, True)"
  by code_simp

end
